theory Spec2Isabelle
  imports Main "HOL-Library.Word"
begin

unbundle bit_operations_syntax

section \<open>JavaScript values used by the chat code\<close>

text \<open>
  A JavaScript string is a sequence of UTF-16 code units; \<open>charCodeAt\<close> and \<open>length\<close>
  read code units. A string literal of the source is written \<open>js ''...''\<close>.
\<close>

type_synonym jsstring = "16 word list"

definition js :: "string \<Rightarrow> jsstring" where
  "js s = map (\<lambda>c. word_of_nat (of_char c)) s"

definition charCodeAt :: "jsstring \<Rightarrow> nat \<Rightarrow> int" where
  "charCodeAt s i = uint (s ! i)"

text \<open>
  The numbers of \<open>generateAnonymousName\<close> are integers of magnitude below \<open>2 ^ 53\<close>, where
  the arithmetic of JavaScript's doubles is exact, so a Number is an \<open>int\<close> here. The bitwise
  operators convert their operands with ToInt32 (the value modulo \<open>2 ^ 32\<close>, read as two's
  complement) and return a signed 32-bit result; a shift count is taken modulo 32.
\<close>

definition ToInt32 :: "int \<Rightarrow> 32 word" where
  "ToInt32 x = word_of_int x"

definition js_shl :: "int \<Rightarrow> nat \<Rightarrow> int" where
  "js_shl x n = sint (push_bit (n mod 32) (ToInt32 x))"

definition js_sar :: "int \<Rightarrow> nat \<Rightarrow> int" where
  "js_sar x n = sint (signed_drop_bit (n mod 32) (ToInt32 x))"

definition js_and :: "int \<Rightarrow> int \<Rightarrow> int" where
  "js_and x y = sint (ToInt32 x AND ToInt32 y)"

definition Math_abs :: "int \<Rightarrow> int" where
  "Math_abs x = (if x < 0 then - x else x)"

text \<open>The remainder operator \<open>%\<close> truncates: the result has the sign of the dividend.\<close>

definition js_rem :: "int \<Rightarrow> int \<Rightarrow> int" where
  "js_rem a b = (if a < 0 then - ((- a) mod \<bar>b\<bar>) else a mod \<bar>b\<bar>)"

text \<open>Reading an array of strings inside a template literal: out of range is \<open>undefined\<close>.\<close>

definition index_str :: "jsstring list \<Rightarrow> int \<Rightarrow> jsstring" where
  "index_str xs i = (if 0 \<le> i \<and> i < int (length xs) then xs ! nat i else js ''undefined'')"

section \<open>The fallback name (ChatRoom.tsx, generateAnonymousName)\<close>

definition adjectives :: "jsstring list" where
  "adjectives = map js [''Happy'', ''Bright'', ''Quick'', ''Clever'', ''Swift'',
     ''Bold'', ''Calm'', ''Cool'', ''Keen'', ''Nice'']"

definition animals :: "jsstring list" where
  "animals = map js [''Panda'', ''Eagle'', ''Tiger'', ''Wolf'', ''Fox'',
     ''Hawk'', ''Owl'', ''Dolphin'', ''Phoenix'', ''Dragon'']"

text \<open>
  One round of the loop body:
  \<^verbatim>\<open>hash = ((hash << 5) - hash) + char; hash = hash & hash\<close>.
\<close>

definition hash_step :: "int \<Rightarrow> int \<Rightarrow> int" where
  "hash_step hash char =
     (let hash1 = (js_shl hash 5 - hash) + char
      in js_and hash1 hash1)"

text \<open>The loop \<open>for (let i = 0; i < email.length; i++)\<close>, from index \<open>i\<close> on.\<close>

function hash_loop :: "jsstring \<Rightarrow> nat \<Rightarrow> int \<Rightarrow> int" where
  "hash_loop email i hash =
     (if i < length email
      then hash_loop email (i + 1) (hash_step hash (charCodeAt email i))
      else hash)"
  by pat_completeness auto
termination
  by (relation "measure (\<lambda>(email, i, hash). length email - i)") auto

declare hash_loop.simps [simp del]

definition generateAnonymousName :: "jsstring \<Rightarrow> jsstring" where
  "generateAnonymousName email =
     (let hash = hash_loop email 0 0;
          adjIndex = js_rem (Math_abs hash) (int (length adjectives));
          animIndex = js_rem (Math_abs (js_sar hash 8)) (int (length animals))
      in index_str adjectives adjIndex @ js '' '' @ index_str animals animIndex)"

subsection \<open>The algorithm as the specification words it\<close>

text \<open>
  Wrapping to signed 32 bits, the hash \<open>hash * 31 + charCode\<close> wrapped at each step, the
  indices \<open>abs(hash) mod size\<close> and \<open>abs(hash >> 8) mod size\<close> with \<open>>>\<close> the arithmetic
  shift (the floor of the division by 256), and the name "Adjective Noun".
\<close>

definition wrap32 :: "int \<Rightarrow> int" where
  "wrap32 x = (x + 2 ^ 31) mod 2 ^ 32 - 2 ^ 31"

definition spec_hash :: "jsstring \<Rightarrow> int" where
  "spec_hash email = foldl (\<lambda>h c. wrap32 (h * 31 + uint c)) 0 email"

definition spec_name :: "jsstring \<Rightarrow> jsstring" where
  "spec_name email =
     (let h = spec_hash email
      in adjectives ! nat (\<bar>h\<bar> mod int (length adjectives)) @ js '' '' @
         animals ! nat (\<bar>h div 2 ^ 8\<bar> mod int (length animals)))"

section \<open>Network calls and the effects of the chat code\<close>

text \<open>
  What \<open>await fetch(...)\<close> gives: the promise rejects (network error), or it resolves to a
  response with its \<open>ok\<close> flag and its body; \<open>json = None\<close> stands for a body whose
  \<open>response.json()\<close> rejects.
\<close>

datatype 'a response = Response (ok: bool) (json: "'a option")

datatype 'a fetched = Rejected | Resolved "'a response"

datatype realtime = Realtime (clientId: "jsstring option")

datatype chat_client = ChatClient realtime

datatype room_handle = Room jsstring

datatype user = User (email_user: "jsstring option")

text \<open>The subscriptions of the room; the typing handler closes over the session's email.\<close>

datatype subscription = MessageSub | ReactionSub | TypingSub "jsstring option" | PresenceSub

datatype log_entry =
    CannotSend | SaveFailed | SendFailed | HistoryFailed | RoomFailed | SetupFailed
  | UnsubscribeFailed | DetachFailed

text \<open>The calls that leave the component, in the order they are made.\<close>

datatype effect =
    NewRealtime "jsstring option"
  | NewChatClient
  | RoomsGet jsstring
  | Attach room_handle
  | Detach room_handle
  | FetchHistory
  | Subscribe subscription
  | Unsubscribe subscription
  | PresenceEnter jsstring
  | PresenceGet
  | LookupName jsstring
  | PostMessage jsstring
  | Publish jsstring
  | TypingKeystroke
  | TypingStop
  | ConsoleError log_entry
  | Alert

section \<open>The state of a ChatRoom instance\<close>

record message =
  id_msg :: jsstring
  text_msg :: jsstring
  userName :: jsstring
  userEmail :: jsstring
  timestamp :: int

record member =
  member_clientId :: jsstring
  member_name :: jsstring

text \<open>
  The \<open>useState\<close> slots and the \<open>useRef\<close> slots of the component. \<open>messageIdsRef\<close> is a
  JavaScript Set used through \<open>has\<close>, \<open>add\<close> and \<open>clear\<close> only; \<open>typingUsers\<close> is a Set that
  is rendered through \<open>Array.from\<close>, so it keeps its insertion order;
  \<open>connectionPromiseRef\<close> is \<open>True\<close> when the slot holds a promise.
\<close>

record chat =
  messages :: "message list"
  room :: "room_handle option"
  onlineUsers :: "member list"
  typingUsers :: "jsstring list"
  currentUserFlonaName :: jsstring
  realtimeClientRef :: "realtime option"
  chatClientRef :: "chat_client option"
  currentRoomRef :: "room_handle option"
  subscriptionsRef :: "subscription list"
  messageIdsRef :: "jsstring set"
  isInitializedRef :: bool
  connectionPromiseRef :: bool
  flonaNameCacheRef :: "jsstring \<rightharpoonup> jsstring"

definition initial_chat :: chat where
  "initial_chat = \<lparr>messages = [], room = None, onlineUsers = [], typingUsers = [],
     currentUserFlonaName = js ''Anonymous'', realtimeClientRef = None, chatClientRef = None,
     currentRoomRef = None, subscriptionsRef = [], messageIdsRef = {},
     isInitializedRef = False, connectionPromiseRef = False, flonaNameCacheRef = Map.empty\<rparr>"

text \<open>A JavaScript Set as the list of its elements in insertion order.\<close>

definition Set_add :: "'a \<Rightarrow> 'a list \<Rightarrow> 'a list" where
  "Set_add x s = (if x \<in> set s then s else s @ [x])"

definition new_Set :: "'a list \<Rightarrow> 'a list" where
  "new_Set xs = foldl (\<lambda>s x. Set_add x s) [] xs"

definition Set_delete :: "'a \<Rightarrow> 'a list \<Rightarrow> 'a list" where
  "Set_delete x s = filter (\<lambda>y. y \<noteq> x) s"

section \<open>Identity resolution (ChatRoom.tsx, getFlonaName)\<close>

text \<open>
  \<open>encodeURIComponent\<close> throws a URIError on a string with a lone surrogate; the call is
  inside the \<open>try\<close> block, before \<open>fetch\<close>.
\<close>

definition is_high_surrogate :: "16 word \<Rightarrow> bool" where
  "is_high_surrogate c = (0xD800 \<le> c \<and> c \<le> 0xDBFF)"

definition is_low_surrogate :: "16 word \<Rightarrow> bool" where
  "is_low_surrogate c = (0xDC00 \<le> c \<and> c \<le> 0xDFFF)"

fun lone_surrogate :: "jsstring \<Rightarrow> bool" where
  "lone_surrogate [] = False"
| "lone_surrogate [c] = (is_high_surrogate c \<or> is_low_surrogate c)"
| "lone_surrogate (c # d # cs) =
     (if is_high_surrogate c then (if is_low_surrogate d then lone_surrogate cs else True)
      else if is_low_surrogate c then True
      else lone_surrogate (d # cs))"

text \<open>
  The body of \<open>/api/user/flona-name\<close>'s answer is \<open>{flonaName: string | null}\<close>; the lookup
  of an email is what the environment answers to the request for it.
\<close>

type_synonym name_api = "jsstring \<Rightarrow> jsstring option fetched"

type_synonym name_cache = "jsstring \<rightharpoonup> jsstring"

datatype exn = URIError | NetworkError | BodyError

text \<open>
  The \<open>try\<close> block of \<open>getFlonaName\<close>: \<open>Inl\<close> when it throws, \<open>Inr (Some (name, cache))\<close> when
  it returns from inside the block, \<open>Inr None\<close> when control falls out of it (the response
  is not ok). \<open>data.flonaName || generateAnonymousName(email)\<close> takes the generated name
  when the field is null or the empty string.
\<close>

definition getFlonaName_try ::
  "name_api \<Rightarrow> name_cache \<Rightarrow> jsstring \<Rightarrow> (exn + (jsstring \<times> name_cache) option) \<times> effect list" where
  "getFlonaName_try api cache email =
     (if lone_surrogate email then (Inl URIError, [])
      else case api email of
          Rejected \<Rightarrow> (Inl NetworkError, [LookupName email])
        | Resolved response \<Rightarrow>
            if ok response then
              (case json response of
                  None \<Rightarrow> (Inl BodyError, [LookupName email])
                | Some data \<Rightarrow>
                    let flonaName = (case data of
                            None \<Rightarrow> generateAnonymousName email
                          | Some n \<Rightarrow> if n = [] then generateAnonymousName email else n)
                    in (Inr (Some (flonaName, cache(email \<mapsto> flonaName))), [LookupName email]))
            else (Inr None, [LookupName email]))"

definition getFlonaName ::
  "name_api \<Rightarrow> name_cache \<Rightarrow> jsstring \<Rightarrow> jsstring \<times> name_cache \<times> effect list" where
  "getFlonaName api cache email =
     (case cache email of
        Some name \<Rightarrow> (name, cache, [])
      | None \<Rightarrow>
          (case getFlonaName_try api cache email of
             (Inr (Some (flonaName, cache1)), fx) \<Rightarrow> (flonaName, cache1, fx)
           | (_, fx) \<Rightarrow>
               let fallback = generateAnonymousName email
               in (fallback, cache(email \<mapsto> fallback), fx)))"

text \<open>
  \<open>getFlonaName\<close> above is a call that runs to its end with no other code in between.
  The call itself runs up to \<open>await fetch(...)\<close> (\<open>getFlonaName_begin\<close>): the name is known
  at once when it is cached, or when \<open>encodeURIComponent\<close> throws and the \<open>catch\<close> falls
  through to the fallback; otherwise the request is made and the call waits. When the
  answer is there (\<open>getFlonaName_finish\<close>) the rest of the \<open>try\<close> block and the fallback
  run on the cache as it is then, which is written without being tested again.
\<close>

datatype lookup = Known jsstring | Awaiting

definition getFlonaName_begin :: "name_cache \<Rightarrow> jsstring \<Rightarrow> lookup \<times> name_cache \<times> effect list" where
  "getFlonaName_begin cache email =
     (case cache email of
        Some name \<Rightarrow> (Known name, cache, [])
      | None \<Rightarrow>
          if lone_surrogate email then
            (let fallback = generateAnonymousName email
             in (Known fallback, cache(email \<mapsto> fallback), []))
          else (Awaiting, cache, [LookupName email]))"

definition getFlonaName_finish ::
  "jsstring option fetched \<Rightarrow> name_cache \<Rightarrow> jsstring \<Rightarrow> jsstring \<times> name_cache" where
  "getFlonaName_finish answer cache email =
     (let fallback = generateAnonymousName email
      in case answer of
           Rejected \<Rightarrow> (fallback, cache(email \<mapsto> fallback))
         | Resolved response \<Rightarrow>
             if ok response then
               (case json response of
                  None \<Rightarrow> (fallback, cache(email \<mapsto> fallback))
                | Some data \<Rightarrow>
                    let flonaName = (case data of
                            None \<Rightarrow> generateAnonymousName email
                          | Some n \<Rightarrow> if n = [] then generateAnonymousName email else n)
                    in (flonaName, cache(email \<mapsto> flonaName)))
             else (fallback, cache(email \<mapsto> fallback)))"

section \<open>The message store (the /api/messages route)\<close>

text \<open>
  A row of \<open>chat_messages\<close> with the \<open>flona_name\<close> of its user (the \<open>include\<close> of the
  query); \<open>created_at\<close> in epoch milliseconds.
\<close>

record chat_message =
  id_row :: jsstring
  user_id :: jsstring
  user_name :: jsstring
  user_email :: jsstring
  text_row :: jsstring
  created_at :: int
  user_flona_name :: "jsstring option"

text \<open>
  \<open>prisma.chatMessage.findMany({orderBy: {created_at: 'asc'}, take: 100})\<close>: the rows in
  ascending order of \<open>created_at\<close>, and of these the first 100. Rows of equal \<open>created_at\<close>
  keep the order of the table here; the database leaves their order open.
\<close>

definition findMany :: "chat_message list \<Rightarrow> chat_message list" where
  "findMany table = take 100 (sort_key created_at table)"

definition formattedMessage :: "chat_message \<Rightarrow> message" where
  "formattedMessage msg =
     \<lparr>id_msg = id_row msg, text_msg = text_row msg,
      userName = (case user_flona_name msg of
                    None \<Rightarrow> user_name msg
                  | Some n \<Rightarrow> if n = [] then user_name msg else n),
      userEmail = user_email msg, timestamp = created_at msg\<rparr>"

text \<open>
  The GET handler; \<open>db = None\<close> is a query that throws, answered with status 500 and an
  error body that is no message list and that the client does not read (\<open>None\<close> here).
  The \<open>reactions\<close> field of a message is the empty object everywhere and is left out.
\<close>

definition GET_messages :: "chat_message list option \<Rightarrow> message list response" where
  "GET_messages db =
     (case db of
        None \<Rightarrow> Response False None
      | Some table \<Rightarrow> Response True (Some (map formattedMessage (findMany table))))"

text \<open>
  The history as the specification words it: the most recent 100 messages, oldest first.
\<close>

definition spec_history :: "chat_message list \<Rightarrow> message list" where
  "spec_history table =
     (let sorted_rows = sort_key created_at table
      in map formattedMessage (drop (length sorted_rows - 100) sorted_rows))"

section \<open>History seeding and the delivery handlers (ChatRoom.tsx, setupChat)\<close>

text \<open>
  Lines 264 to 282: the answer to \<open>fetch('/api/messages')\<close>. A rejected fetch and a body that
  does not parse are caught and logged; a response that is not ok is skipped.
\<close>

definition seed_history :: "chat \<Rightarrow> message list \<Rightarrow> chat" where
  "seed_history s historicalMessages =
     s\<lparr>messages := historicalMessages,
       messageIdsRef := foldl (\<lambda>ids msg. insert (id_msg msg) ids) (messageIdsRef s)
                          historicalMessages,
       flonaNameCacheRef :=
         foldl (\<lambda>cache msg.
                  if userEmail msg \<noteq> [] \<and> userName msg \<noteq> []
                  then cache(userEmail msg \<mapsto> userName msg) else cache)
               (flonaNameCacheRef s) historicalMessages\<rparr>"

definition load_history :: "chat \<Rightarrow> message list fetched \<Rightarrow> chat \<times> effect list" where
  "load_history s answer =
     (case answer of
        Rejected \<Rightarrow> (s, [ConsoleError HistoryFailed])
      | Resolved response \<Rightarrow>
          if ok response then
            (case json response of
               None \<Rightarrow> (s, [ConsoleError HistoryFailed])
             | Some historicalMessages \<Rightarrow> (seed_history s historicalMessages, []))
          else (s, []))"

text \<open>
  A live message event: \<open>serial\<close>, \<open>clientId\<close> and \<open>text\<close> may be missing, and
  \<open>x || y\<close> takes \<open>y\<close> for a missing or empty \<open>x\<close>. \<open>now\<close> is what
  \<open>Date.now().toString()\<close> gives when the event arrives.
\<close>

record message_event =
  serial :: "jsstring option"
  ev_clientId :: "jsstring option"
  ev_text :: "jsstring option"
  ev_timestamp :: int

definition or_else :: "jsstring option \<Rightarrow> jsstring \<Rightarrow> jsstring" where
  "or_else x y = (case x of None \<Rightarrow> y | Some v \<Rightarrow> if v = [] then y else v)"

text \<open>A handler suspended at \<open>await getFlonaName(clientEmail)\<close>, with its local variables.\<close>

record pending =
  p_messageId :: jsstring
  p_clientEmail :: jsstring
  p_text :: jsstring
  p_timestamp :: int

definition append_message :: "chat \<Rightarrow> pending \<Rightarrow> jsstring \<Rightarrow> chat" where
  "append_message s p name =
     s\<lparr>messages := messages s @
         [\<lparr>id_msg = p_messageId p, text_msg = p_text p, userName = name,
           userEmail = p_clientEmail p, timestamp = p_timestamp p\<rparr>]\<rparr>"

text \<open>
  The message handler up to its first suspension: the membership test and the \<open>add\<close> are
  both here. With an empty \<open>clientId\<close> there is no \<open>await\<close> and the message is appended at
  once.
\<close>

definition messageSub_begin :: "jsstring \<Rightarrow> chat \<Rightarrow> message_event \<Rightarrow> chat \<times> pending option" where
  "messageSub_begin now s messageEvent =
     (let messageId = or_else (serial messageEvent) now
      in if messageId \<in> messageIdsRef s then (s, None)
         else
           let s1 = s\<lparr>messageIdsRef := insert messageId (messageIdsRef s)\<rparr>;
               clientEmail = or_else (ev_clientId messageEvent) [];
               p = \<lparr>p_messageId = messageId, p_clientEmail = clientEmail,
                    p_text = or_else (ev_text messageEvent) [],
                    p_timestamp = ev_timestamp messageEvent\<rparr>
           in if clientEmail = [] then (append_message s1 p (js ''Anonymous''), None)
              else (s1, Some p))"

text \<open>
  The handler calls \<open>getFlonaName\<close> in the same turn, which tests the cache and makes the
  request there; the handler is then suspended, and when it resumes (with the answer to
  the request, where one was made) it appends the message.
\<close>

definition messageSub_resume :: "lookup \<Rightarrow> jsstring option fetched \<Rightarrow> chat \<Rightarrow> pending \<Rightarrow> chat" where
  "messageSub_resume l answer s p =
     (case l of
        Known name \<Rightarrow> append_message s p name
      | Awaiting \<Rightarrow>
          (case getFlonaName_finish answer (flonaNameCacheRef s) (p_clientEmail p) of
             (name, cache) \<Rightarrow> append_message (s\<lparr>flonaNameCacheRef := cache\<rparr>) p name))"

text \<open>
  The messages of one view: live events arrive, suspended handlers resume in any order,
  and the history is loaded (by \<open>setupChat\<close>, also when it runs again after a failure, with
  the subscriptions still registered). \<open>made\<close> are the calls made.
\<close>

record view =
  chat_of :: chat
  suspended :: "(pending \<times> lookup) list"
  made :: "effect list"

datatype delivery =
    Arrives jsstring message_event
  | Resumes nat "jsstring option fetched"
  | Loads "message list fetched"

definition deliver :: "view \<Rightarrow> delivery \<Rightarrow> view" where
  "deliver v d =
     (case d of
        Arrives now messageEvent \<Rightarrow>
          (case messageSub_begin now (chat_of v) messageEvent of
             (s, None) \<Rightarrow> v\<lparr>chat_of := s\<rparr>
           | (s, Some p) \<Rightarrow>
               (case getFlonaName_begin (flonaNameCacheRef s) (p_clientEmail p) of
                  (l, cache, fx) \<Rightarrow>
                    v\<lparr>chat_of := s\<lparr>flonaNameCacheRef := cache\<rparr>,
                      suspended := suspended v @ [(p, l)], made := made v @ fx\<rparr>))
      | Resumes k answer \<Rightarrow>
          if k < length (suspended v)
          then (case suspended v ! k of
                  (p, l) \<Rightarrow>
                    v\<lparr>chat_of := messageSub_resume l answer (chat_of v) p,
                      suspended := take k (suspended v) @ drop (Suc k) (suspended v)\<rparr>)
          else v
      | Loads answer \<Rightarrow>
          (case load_history (chat_of v) answer of
             (s, fx) \<Rightarrow> v\<lparr>chat_of := s, made := made v @ fx\<rparr>))"

definition deliveries :: "view \<Rightarrow> delivery list \<Rightarrow> view" where
  "deliveries v ds = foldl deliver v ds"

text \<open>
  The typing handler, lines 324 to 341, with the email of the session it closed over.
  The names are resolved one after the other, each call seeing the cache the previous
  one left.
\<close>

fun resolve_names :: "name_api \<Rightarrow> name_cache \<Rightarrow> jsstring list \<Rightarrow> jsstring list \<times> name_cache \<times> effect list" where
  "resolve_names api cache [] = ([], cache, [])"
| "resolve_names api cache (e # es) =
     (case getFlonaName api cache e of
        (flonaName, cache1, fx1) \<Rightarrow>
          (case resolve_names api cache1 es of
             (flonaNames, cache2, fx2) \<Rightarrow> (flonaName # flonaNames, cache2, fx1 @ fx2)))"

definition typing_set :: "jsstring option \<Rightarrow> jsstring list \<Rightarrow> jsstring list" where
  "typing_set local_email currentlyTyping =
     (let typingSet = new_Set currentlyTyping
      in case local_email of
           None \<Rightarrow> typingSet
         | Some e \<Rightarrow> if e = [] then typingSet else Set_delete e typingSet)"

definition typingSub :: "jsstring option \<Rightarrow> name_api \<Rightarrow> chat \<Rightarrow> jsstring list \<Rightarrow> chat \<times> effect list" where
  "typingSub local_email api s currentlyTyping =
     (case resolve_names api (flonaNameCacheRef s) (typing_set local_email currentlyTyping) of
        (flonaNames, cache, fx) \<Rightarrow>
          (s\<lparr>flonaNameCacheRef := cache, typingUsers := new_Set flonaNames\<rparr>, fx))"

text \<open>
  The presence handler, lines 344 to 351. The event is not read; \<open>query\<close> is what
  \<open>presence.get()\<close> resolves to, \<open>None\<close> when it rejects.
\<close>

definition presenceSub :: "chat \<Rightarrow> 'e \<Rightarrow> member list option \<Rightarrow> chat \<times> effect list" where
  "presenceSub s presenceEvent query =
     (if currentRoomRef s \<noteq> None
      then (case query of
              Some members \<Rightarrow> (s\<lparr>onlineUsers := members\<rparr>, [PresenceGet])
            | None \<Rightarrow> (s, [PresenceGet]))
      else (s, []))"

section \<open>Sending (MessageInput's handleSend, ChatRoom.tsx sendMessage)\<close>

text \<open>\<open>String.prototype.trim\<close> removes ECMAScript white space and line terminators.\<close>

definition is_white_space :: "16 word \<Rightarrow> bool" where
  "is_white_space c =
     (c \<in> {0x09, 0x0A, 0x0B, 0x0C, 0x0D, 0x20, 0xA0, 0x1680, 0x2028, 0x2029, 0x202F, 0x205F,
            0x3000, 0xFEFF} \<or> (0x2000 \<le> c \<and> c \<le> 0x200A))"

definition trim :: "jsstring \<Rightarrow> jsstring" where
  "trim s = rev (dropWhile is_white_space (rev (dropWhile is_white_space s)))"

text \<open>
  The input component: its text, \<open>isTypingRef\<close>, and whether \<open>typingTimeoutRef\<close> holds a
  timer. ChatRoom passes both callbacks, \<open>onSend\<close> and \<open>onTyping\<close>; \<open>onSend\<close> returns
  nothing to the input, which does not wait for it.
\<close>

record message_input =
  text_input :: jsstring
  isTypingRef :: bool
  typingTimeoutRef :: bool

datatype callback = OnSend jsstring | OnTyping bool | ClearTimeout

definition handleSend :: "message_input \<Rightarrow> message_input \<times> callback list" where
  "handleSend i =
     (if trim (text_input i) \<noteq> [] then
        (i\<lparr>text_input := [], isTypingRef := False\<rparr>,
         [OnSend (trim (text_input i))] @
         (if isTypingRef i then [OnTyping False] else []) @
         (if typingTimeoutRef i then [ClearTimeout] else []))
      else (i, []))"

text \<open>
  \<open>sendMessage\<close>: \<open>has_user\<close> is \<open>session?.user\<close> being there, \<open>db\<close> the answer to the POST
  (its error body is read only when the response is not ok), \<open>publish_ok\<close> whether
  \<open>room.messages.send\<close> resolves. The \<open>catch\<close> block logs and alerts. The function runs
  up to the \<open>fetch\<close> when it is called (\<open>sendMessage_begin\<close>, with whether it is suspended
  there) and goes on when the POST is answered (\<open>sendMessage_rest\<close>).
\<close>

definition send_catch :: "effect list" where
  "send_catch = [ConsoleError SendFailed, Alert]"

definition send_publish :: "bool \<Rightarrow> jsstring \<Rightarrow> effect list" where
  "send_publish publish_ok txt = Publish txt # (if publish_ok then [] else send_catch)"

definition sendMessage_begin :: "chat \<Rightarrow> bool \<Rightarrow> jsstring \<Rightarrow> effect list \<times> bool" where
  "sendMessage_begin s has_user txt =
     (if room s = None \<or> \<not> has_user then ([ConsoleError CannotSend], False)
      else ([PostMessage txt], True))"

definition sendMessage_rest :: "unit fetched \<Rightarrow> bool \<Rightarrow> jsstring \<Rightarrow> effect list" where
  "sendMessage_rest db publish_ok txt =
     (case db of
        Rejected \<Rightarrow> send_catch
      | Resolved dbResponse \<Rightarrow>
          if \<not> ok dbResponse then
            (case json dbResponse of
               None \<Rightarrow> send_catch
             | Some error \<Rightarrow> ConsoleError SaveFailed # send_publish publish_ok txt)
          else send_publish publish_ok txt)"

definition sendMessage :: "chat \<Rightarrow> bool \<Rightarrow> unit fetched \<Rightarrow> bool \<Rightarrow> jsstring \<Rightarrow> effect list" where
  "sendMessage s has_user db publish_ok txt =
     (case sendMessage_begin s has_user txt of
        (fx, suspended_at_fetch) \<Rightarrow>
          if suspended_at_fetch then fx @ sendMessage_rest db publish_ok txt else fx)"

text \<open>\<open>handleTyping\<close>, up to its \<open>await\<close>.\<close>

definition handleTyping :: "chat \<Rightarrow> bool \<Rightarrow> effect list" where
  "handleTyping s isTyping =
     (if room s = None then [] else if isTyping then [TypingKeystroke] else [TypingStop])"

text \<open>
  The wiring \<open><MessageInput onSend={sendMessage} onTyping={handleTyping} />\<close>: a press on
  Send. The result is the input afterwards, the calls made while \<open>handleSend\<close> runs, and
  the calls made later, when the network has answered the send it started.
\<close>

definition callback_now :: "chat \<Rightarrow> bool \<Rightarrow> callback \<Rightarrow> effect list" where
  "callback_now s has_user c =
     (case c of
        OnSend txt \<Rightarrow> fst (sendMessage_begin s has_user txt)
      | OnTyping b \<Rightarrow> handleTyping s b
      | ClearTimeout \<Rightarrow> [])"

definition callback_later :: "chat \<Rightarrow> bool \<Rightarrow> unit fetched \<Rightarrow> bool \<Rightarrow> callback \<Rightarrow> effect list" where
  "callback_later s has_user db publish_ok c =
     (case c of
        OnSend txt \<Rightarrow>
          if snd (sendMessage_begin s has_user txt) then sendMessage_rest db publish_ok txt
          else []
      | OnTyping b \<Rightarrow> []
      | ClearTimeout \<Rightarrow> [])"

definition press_send ::
  "chat \<Rightarrow> bool \<Rightarrow> unit fetched \<Rightarrow> bool \<Rightarrow> message_input
     \<Rightarrow> message_input \<times> effect list \<times> effect list" where
  "press_send s has_user db publish_ok i =
     (case handleSend i of
        (i1, calls) \<Rightarrow>
          (i1, concat (map (callback_now s has_user) calls),
           concat (map (callback_later s has_user db publish_ok) calls)))"

section \<open>Activation and teardown (ChatRoom.tsx, setupChat and the unmount effect)\<close>

text \<open>
  An invocation of \<open>setupChat\<close> suspended at one of its \<open>await\<close>s, with the variables of
  its closure: \<open>isMounted\<close> (the cleanup of its effect sets it to false), the session's
  user, the \<open>realtimeClient\<close> local and the \<open>currentUserFlonaName\<close> of its render.
\<close>

datatype pc =
    AwaitConnection | AwaitRoomsGet | AwaitAttach | AwaitHistory
  | AwaitPresenceEnter | AwaitPresenceGet

record task =
  at :: pc
  isMounted :: bool
  t_user :: user
  t_client :: realtime
  t_name :: jsstring

text \<open>What the environment answers to the pending \<open>await\<close>.\<close>

datatype answer =
    Connected | ConnectionFailed | ConnectionTimeout
  | RoomsGetThrows | RoomsGetReturns "room_handle option"
  | AttachOk | AttachThrows
  | HistoryAnswer "message list fetched"
  | EnterOk | EnterThrows
  | MembersAre "member list" | PresenceGetThrows

type_synonym outcome = "chat \<times> task option \<times> effect list"

text \<open>The outer \<open>catch\<close>: log, and reset the flag so that a later activation retries.\<close>

definition setup_failed :: "chat \<Rightarrow> effect list \<Rightarrow> outcome" where
  "setup_failed s fx = (s\<lparr>isInitializedRef := False\<rparr>, None, fx @ [ConsoleError SetupFailed])"

text \<open>Lines 284 to 361: the subscriptions, once, and \<open>presence.enter\<close>.\<close>

definition after_history :: "chat \<Rightarrow> task \<Rightarrow> effect list \<Rightarrow> outcome" where
  "after_history s t fx =
     (case currentRoomRef s of
        None \<Rightarrow> setup_failed s fx
      | Some r \<Rightarrow>
          if subscriptionsRef s = [] then
            (let subs = [MessageSub, ReactionSub, TypingSub (email_user (t_user t)), PresenceSub]
             in (s\<lparr>subscriptionsRef := subs\<rparr>, Some (t\<lparr>at := AwaitPresenceEnter\<rparr>),
                 fx @ map Subscribe subs @ [PresenceEnter (t_name t)]))
          else (s, Some (t\<lparr>at := AwaitPresenceEnter\<rparr>), fx @ [PresenceEnter (t_name t)]))"

text \<open>Lines 254 to 266: the room is there; publish it to the component and fetch the history.\<close>

definition after_room :: "chat \<Rightarrow> task \<Rightarrow> effect list \<Rightarrow> outcome" where
  "after_room s t fx =
     (if \<not> isMounted t then (s, None, fx)
      else (s\<lparr>room := currentRoomRef s\<rparr>, Some (t\<lparr>at := AwaitHistory\<rparr>), fx @ [FetchHistory]))"

text \<open>Lines 225 to 252: the chat client, and the room if none is held.\<close>

definition after_connect :: "chat \<Rightarrow> task \<Rightarrow> outcome" where
  "after_connect s t =
     (if \<not> isMounted t then (s, None, [])
      else
        let (s1, fx1) = (if chatClientRef s = None
                         then (s\<lparr>chatClientRef := Some (ChatClient (t_client t))\<rparr>, [NewChatClient])
                         else (s, []))
        in if currentRoomRef s1 = None
           then (s1, Some (t\<lparr>at := AwaitRoomsGet\<rparr>), fx1 @ [RoomsGet (js ''campus-global'')])
           else after_room s1 t fx1)"

text \<open>
  Lines 183 to 220: a new client replaces the one held, the connection promise is there
  (made now unless one is pending), and the invocation waits for it.
\<close>

definition open_connection :: "chat \<Rightarrow> task \<Rightarrow> outcome" where
  "open_connection s t =
     (s\<lparr>realtimeClientRef := Some (t_client t), connectionPromiseRef := True\<rparr>,
      Some (t\<lparr>at := AwaitConnection\<rparr>), [NewRealtime (clientId (t_client t))])"

text \<open>
  Lines 163 to 223: the guards, the flag, and the connection. \<open>connected\<close> is whether the
  connection of the client held in \<open>realtimeClientRef\<close> is in state \<open>'connected'\<close>.
\<close>

definition setupChat :: "chat \<Rightarrow> bool \<Rightarrow> bool \<Rightarrow> user option \<Rightarrow> outcome" where
  "setupChat s mounted connected session_user =
     (if isInitializedRef s \<or> \<not> mounted then (s, None, [])
      else case session_user of
          None \<Rightarrow> (s, None, [])
        | Some u \<Rightarrow>
            let s1 = s\<lparr>isInitializedRef := True\<rparr>;
                t = \<lparr>at = AwaitConnection, isMounted = mounted, t_user = u,
                     t_client = Realtime (email_user u), t_name = currentUserFlonaName s\<rparr>
            in (case realtimeClientRef s1 of
                  None \<Rightarrow> open_connection s1 t
                | Some realtimeClient \<Rightarrow>
                    if connected then after_connect s1 (t\<lparr>t_client := realtimeClient\<rparr>)
                    else open_connection s1 t))"

text \<open>
  A suspended invocation resumes with the answer to its \<open>await\<close>; an answer of another
  kind is not one it can get (\<open>None\<close>).
\<close>

definition resume :: "chat \<Rightarrow> task \<Rightarrow> answer \<Rightarrow> outcome option" where
  "resume s t a =
     (case (at t, a) of
        (AwaitConnection, Connected) \<Rightarrow> Some (after_connect (s\<lparr>connectionPromiseRef := False\<rparr>) t)
      | (AwaitConnection, ConnectionFailed) \<Rightarrow>
          Some (setup_failed (s\<lparr>connectionPromiseRef := False\<rparr>) [])
      | (AwaitConnection, ConnectionTimeout) \<Rightarrow>
          Some (setup_failed (s\<lparr>connectionPromiseRef := False\<rparr>) [])
      | (AwaitRoomsGet, RoomsGetThrows) \<Rightarrow> Some (setup_failed s [ConsoleError RoomFailed])
      | (AwaitRoomsGet, RoomsGetReturns None) \<Rightarrow>
          Some (setup_failed (s\<lparr>currentRoomRef := None\<rparr>) [ConsoleError RoomFailed])
      | (AwaitRoomsGet, RoomsGetReturns (Some r)) \<Rightarrow>
          Some (s\<lparr>currentRoomRef := Some r\<rparr>, Some (t\<lparr>at := AwaitAttach\<rparr>), [Attach r])
      | (AwaitAttach, AttachThrows) \<Rightarrow> Some (setup_failed s [ConsoleError RoomFailed])
      | (AwaitAttach, AttachOk) \<Rightarrow> Some (after_room s t [])
      | (AwaitHistory, HistoryAnswer h) \<Rightarrow>
          (case load_history s h of (s1, fx) \<Rightarrow> Some (after_history s1 t fx))
      | (AwaitPresenceEnter, EnterThrows) \<Rightarrow> Some (setup_failed s [])
      | (AwaitPresenceEnter, EnterOk) \<Rightarrow>
          (case currentRoomRef s of
             None \<Rightarrow> Some (setup_failed s [])
           | Some r \<Rightarrow> Some (s, Some (t\<lparr>at := AwaitPresenceGet\<rparr>), [PresenceGet]))
      | (AwaitPresenceGet, PresenceGetThrows) \<Rightarrow> Some (setup_failed s [])
      | (AwaitPresenceGet, MembersAre members) \<Rightarrow> Some (s\<lparr>onlineUsers := members\<rparr>, None, [])
      | _ \<Rightarrow> None)"

text \<open>
  The unmount effect, lines 385 to 415. \<open>unsubscribe\<close> and \<open>detach\<close> are called inside
  \<open>try\<close> blocks; whether they throw is the environment's.
\<close>

definition cleanup :: "(subscription \<Rightarrow> bool) \<Rightarrow> bool \<Rightarrow> chat \<Rightarrow> chat \<times> effect list" where
  "cleanup unsubscribe_throws detach_throws s =
     (s\<lparr>subscriptionsRef := [], currentRoomRef := None, messageIdsRef := {},
        isInitializedRef := False\<rparr>,
      concat (map (\<lambda>sub. Unsubscribe sub #
                     (if unsubscribe_throws sub then [ConsoleError UnsubscribeFailed] else []))
                  (subscriptionsRef s)) @
      (case currentRoomRef s of
         None \<Rightarrow> []
       | Some r \<Rightarrow> Detach r # (if detach_throws then [ConsoleError DetachFailed] else [])))"

text \<open>
  One mounted surface: the component's state, the suspended invocations of \<open>setupChat\<close>
  and the calls made so far. \<open>Activate\<close> is the session effect running \<open>setupChat\<close> (in a
  new closure, \<open>isMounted = true\<close>); \<open>EffectCleanup\<close> is the cleanup of that effect, after
  which the earlier closures have \<open>isMounted = false\<close>.
\<close>

record surface =
  chat_s :: chat
  tasks :: "task list"
  trace :: "effect list"

datatype event =
    Activate bool "user option"
  | EffectCleanup
  | Resume nat answer
  | Unmount "subscription \<Rightarrow> bool" bool

definition finish :: "surface \<Rightarrow> task list \<Rightarrow> task list \<Rightarrow> outcome \<Rightarrow> surface" where
  "finish y pre post out =
     (case out of
        (s, t, fx) \<Rightarrow>
          y\<lparr>chat_s := s,
            tasks := pre @ (case t of None \<Rightarrow> [] | Some t1 \<Rightarrow> [t1]) @ post,
            trace := trace y @ fx\<rparr>)"

definition unmount_tasks :: "task list \<Rightarrow> task list" where
  "unmount_tasks ts = map (\<lambda>t. t\<lparr>isMounted := False\<rparr>) ts"

definition step :: "surface \<Rightarrow> event \<Rightarrow> surface" where
  "step y e =
     (case e of
        Activate connected session_user \<Rightarrow>
          finish y (tasks y) [] (setupChat (chat_s y) True connected session_user)
      | EffectCleanup \<Rightarrow> y\<lparr>tasks := unmount_tasks (tasks y)\<rparr>
      | Resume k a \<Rightarrow>
          if k < length (tasks y) then
            (case resume (chat_s y) (tasks y ! k) a of
               None \<Rightarrow> y
             | Some out \<Rightarrow> finish y (take k (tasks y)) (drop (Suc k) (tasks y)) out)
          else y
      | Unmount unsubscribe_throws detach_throws \<Rightarrow>
          (case cleanup unsubscribe_throws detach_throws (chat_s y) of
             (s, fx) \<Rightarrow> y\<lparr>chat_s := s, tasks := unmount_tasks (tasks y), trace := trace y @ fx\<rparr>))"

definition run :: "surface \<Rightarrow> event list \<Rightarrow> surface" where
  "run y es = foldl step y es"

definition fresh_surface :: surface where
  "fresh_surface = \<lparr>chat_s = initial_chat, tasks = [], trace = []\<rparr>"

text \<open>
  An event that resets the initialization flag: a failed step of the activation, or the
  teardown.
\<close>

fun failure :: "answer \<Rightarrow> bool" where
  "failure ConnectionFailed = True"
| "failure ConnectionTimeout = True"
| "failure RoomsGetThrows = True"
| "failure (RoomsGetReturns None) = True"
| "failure AttachThrows = True"
| "failure EnterThrows = True"
| "failure PresenceGetThrows = True"
| "failure _ = False"

fun resets :: "event \<Rightarrow> bool" where
  "resets (Resume k a) = failure a"
| "resets (Unmount u d) = True"
| "resets _ = False"

definition connection_attempts :: "effect list \<Rightarrow> nat" where
  "connection_attempts fx = length (filter (\<lambda>e. case e of NewRealtime c \<Rightarrow> True | _ \<Rightarrow> False) fx)"

definition room_attaches :: "effect list \<Rightarrow> nat" where
  "room_attaches fx = length (filter (\<lambda>e. case e of Attach r \<Rightarrow> True | _ \<Rightarrow> False) fx)"

section \<open>Predicates of the statements\<close>

text \<open>
  The identity store gives no display name: the request fails, the status is not a
  success (not found, server error), the body cannot be read, or the name in it is null
  or empty.
\<close>

fun no_display_name :: "jsstring option fetched \<Rightarrow> bool" where
  "no_display_name Rejected = True"
| "no_display_name (Resolved (Response is_ok body)) =
     (\<not> is_ok \<or> body = None \<or> body = Some None \<or> body = Some (Some []))"

text \<open>The persistence request itself throws: the fetch rejects, or the error body of a
  response that is not ok cannot be read.\<close>

fun persist_throws :: "unit fetched \<Rightarrow> bool" where
  "persist_throws Rejected = True"
| "persist_throws (Resolved (Response is_ok body)) = (\<not> is_ok \<and> body = None)"

text \<open>The persistence request is answered, with a status that is not a success.\<close>

fun persist_refused :: "unit fetched \<Rightarrow> bool" where
  "persist_refused Rejected = False"
| "persist_refused (Resolved (Response is_ok body)) = (\<not> is_ok \<and> body \<noteq> None)"

text \<open>The calls of the teardown: cancelling a subscription, detaching the room, logging.\<close>

fun is_Unsubscribe :: "effect \<Rightarrow> bool" where
  "is_Unsubscribe (Unsubscribe sub) = True"
| "is_Unsubscribe e = False"

fun teardown_call :: "effect \<Rightarrow> bool" where
  "teardown_call (Unsubscribe sub) = True"
| "teardown_call (Detach r) = True"
| "teardown_call (ConsoleError l) = True"
| "teardown_call e = False"

text \<open>
  Every id shown or awaiting its name is in the dedup set, and no id is there twice.
\<close>

definition view_ids :: "view \<Rightarrow> jsstring list" where
  "view_ids v =
     map id_msg (messages (chat_of v)) @ map (\<lambda>w. p_messageId (fst w)) (suspended v)"

definition deduplicated :: "view \<Rightarrow> bool" where
  "deduplicated v = (distinct (view_ids v) \<and> set (view_ids v) \<subseteq> messageIdsRef (chat_of v))"

text \<open>A live event or a resumption, as opposed to a history load.\<close>

fun is_live :: "delivery \<Rightarrow> bool" where
  "is_live (Arrives now messageEvent) = True"
| "is_live (Resumes k answer) = True"
| "is_live (Loads answer) = False"

text \<open>
  What holds of a surface as long as no step of its activation has failed and it has not
  been torn down: the flag is set exactly when the one connection attempt has been made,
  a room is held exactly when the one attach has been made, the room is published to
  the component only when it is held, nothing has happened while the flag is unset, and
  at most one invocation of \<open>setupChat\<close> is suspended, before the room is held or after.
\<close>

definition awaits_room :: "task \<Rightarrow> bool" where
  "awaits_room t = (at t = AwaitConnection \<or> at t = AwaitRoomsGet)"

definition activation_inv :: "surface \<Rightarrow> bool" where
  "activation_inv y =
     (connection_attempts (trace y) = (if isInitializedRef (chat_s y) then 1 else 0) \<and>
      room_attaches (trace y) = (if currentRoomRef (chat_s y) = None then 0 else 1) \<and>
      (room (chat_s y) = None \<or> currentRoomRef (chat_s y) \<noteq> None) \<and>
      (isInitializedRef (chat_s y) \<or>
         tasks y = [] \<and> realtimeClientRef (chat_s y) = None \<and> currentRoomRef (chat_s y) = None) \<and>
      length (tasks y) \<le> 1 \<and>
      list_all (\<lambda>t. awaits_room t = (currentRoomRef (chat_s y) = None)) (tasks y))"

text \<open>
  What holds in addition as long as no effect cleanup has run either: the suspended
  invocation is mounted, the room is published once the invocation is past the history
  fetch, and an activation that is over has published the room.
\<close>

definition past_room :: "task \<Rightarrow> bool" where
  "past_room t = (at t = AwaitHistory \<or> at t = AwaitPresenceEnter \<or> at t = AwaitPresenceGet)"

definition mounted_inv :: "surface \<Rightarrow> bool" where
  "mounted_inv y =
     (list_all (\<lambda>t. isMounted t \<and> (if past_room t then room (chat_s y) \<noteq> None else True))
        (tasks y) \<and>
      (if isInitializedRef (chat_s y) \<and> tasks y = [] then room (chat_s y) \<noteq> None else True))"

fun is_Unmount :: "event \<Rightarrow> bool" where
  "is_Unmount (Unmount u d) = True"
| "is_Unmount e = False"

fun undisturbed :: "event \<Rightarrow> bool" where
  "undisturbed (Activate connected u) = True"
| "undisturbed EffectCleanup = False"
| "undisturbed (Resume k a) = (\<not> failure a)"
| "undisturbed (Unmount u d) = False"

section \<open>Sample values\<close>

definition campus_room :: room_handle where
  "campus_room = Room (js ''campus-global'')"

definition alice :: jsstring where
  "alice = js ''a@b.c''"

definition bob :: jsstring where
  "bob = js ''bob@kgp.in''"

definition alice_member :: member where
  "alice_member = \<lparr>member_clientId = alice, member_name = js ''Swift Dragon''\<rparr>"

text \<open>A surface after a completed activation as \<open>alice\<close>, with two earlier message ids.\<close>

definition active_chat :: chat where
  "active_chat = initial_chat\<lparr>room := Some campus_room, onlineUsers := [alice_member],
     realtimeClientRef := Some (Realtime (Some alice)),
     chatClientRef := Some (ChatClient (Realtime (Some alice))),
     currentRoomRef := Some campus_room,
     subscriptionsRef := [MessageSub, ReactionSub, TypingSub (Some alice), PresenceSub],
     messageIdsRef := {js ''m1'', js ''m2''}, isInitializedRef := True\<rparr>"

definition message_1 :: message where
  "message_1 = \<lparr>id_msg = js ''m1'', text_msg = js ''hi'', userName = js ''Swift Dragon'',
     userEmail = alice, timestamp = 1\<rparr>"

definition message_2 :: message where
  "message_2 = \<lparr>id_msg = js ''m2'', text_msg = js ''yo'', userName = js ''Calm Owl'',
     userEmail = bob, timestamp = 2\<rparr>"

definition live :: "string \<Rightarrow> message_event" where
  "live i = \<lparr>serial = Some (js i), ev_clientId = Some bob, ev_text = Some (js ''again''),
     ev_timestamp = 3\<rparr>"

text \<open>
  A surface whose session effect runs five times: before the session is loaded, when it
  is loaded, and three more times while the activation is pending and after it.
\<close>

definition sample_events :: "event list" where
  "sample_events =
     [Activate False None,
      Activate False (Some (User (Some alice))),
      Activate False (Some (User (Some alice))),
      Resume 0 Connected,
      Resume 0 (RoomsGetReturns (Some campus_room)),
      Activate True (Some (User (Some alice))),
      Resume 0 AttachOk,
      Resume 0 (HistoryAnswer (Resolved (Response True (Some [message_1, message_2])))),
      Resume 0 EnterOk,
      Resume 0 (MembersAre [alice_member]),
      Activate True (Some (User (Some alice)))]"

text \<open>A store of \<open>n\<close> messages, one per millisecond, the \<open>i\<close>-th created at time \<open>i\<close>.\<close>

definition row_at :: "nat \<Rightarrow> chat_message" where
  "row_at i = \<lparr>id_row = [word_of_nat i], user_id = js ''u1'', user_name = js ''Happy Panda'',
     user_email = js ''a@b.c'', text_row = js ''hi'', created_at = int i,
     user_flona_name = None\<rparr>"

definition store_of :: "nat \<Rightarrow> chat_message list" where
  "store_of n = map row_at [1..<Suc n]"

text \<open>A view before anything has happened.\<close>

definition fresh_view :: view where
  "fresh_view = \<lparr>chat_of = initial_chat, suspended = [], made = []\<rparr>"


text \<open>
  The session changes while the connection is being made: the effect is cleaned up and
  runs again, and then the connection is there.
\<close>

definition rerender_events :: "user \<Rightarrow> event list" where
  "rerender_events u =
     [Activate False (Some u), EffectCleanup, Activate False (Some u), Resume 0 Connected]"

text \<open>
  \<open>presence.enter\<close> fails after the subscriptions are registered, and the session effect
  runs again: the history is fetched again.
\<close>

definition retry_events :: "event list" where
  "retry_events =
     [Activate False (Some (User (Some alice))),
      Resume 0 Connected,
      Resume 0 (RoomsGetReturns (Some campus_room)),
      Resume 0 AttachOk,
      Resume 0 (HistoryAnswer (Resolved (Response True (Some [])))),
      Resume 0 EnterThrows,
      EffectCleanup,
      Activate True (Some (User (Some alice)))]"

section \<open>The fallback name agrees with the specified algorithm\<close>

lemma ToInt32_wrap32: "sint (ToInt32 x) = wrap32 x"
  unfolding ToInt32_def wrap32_def
  by (simp add: int_word_sint)

lemma shift_subtract_word:
  "ToInt32 (sint (push_bit 5 (ToInt32 h)) - h + c) = ToInt32 (h * 31 + c)"
  unfolding ToInt32_def
  by (simp add: push_bit_eq_mult)

lemma hash_step_wrap32: "hash_step h c = wrap32 (h * 31 + c)"
  unfolding hash_step_def js_shl_def js_and_def Let_def
  by (simp add: shift_subtract_word ToInt32_wrap32)

lemma wrap32_range: "- (2 ^ 31) \<le> wrap32 x \<and> wrap32 x < 2 ^ 31"
  unfolding wrap32_def by simp

lemma wrap32_id: "- (2 ^ 31) \<le> x \<Longrightarrow> x < 2 ^ 31 \<Longrightarrow> wrap32 x = x"
  unfolding wrap32_def by simp

lemma hash_loop_foldl:
  "hash_loop email i h = foldl (\<lambda>h c. wrap32 (h * 31 + uint c)) h (drop i email)"
proof (induction email i h rule: hash_loop.induct)
  case (1 email i hash)
  show ?case
  proof (cases "i < length email")
    case True
    then have d: "drop i email = email ! i # drop (i + 1) email"
      by (simp add: Cons_nth_drop_Suc)
    from True 1 show ?thesis
      by (subst hash_loop.simps) (simp add: d hash_step_wrap32 charCodeAt_def)
  next
    case False
    then show ?thesis
      by (subst hash_loop.simps) simp
  qed
qed

lemma hash_loop_spec_hash: "hash_loop email 0 0 = spec_hash email"
  by (simp add: hash_loop_foldl spec_hash_def)

lemma foldl_wrap32_range:
  "- (2 ^ 31) \<le> h \<and> h < 2 ^ 31 \<Longrightarrow>
   - (2 ^ 31) \<le> foldl (\<lambda>h c. wrap32 (h * 31 + uint (c :: 16 word))) h cs \<and>
   foldl (\<lambda>h c. wrap32 (h * 31 + uint c)) h cs < 2 ^ 31"
proof (induction cs arbitrary: h)
  case Nil
  then show ?case by simp
next
  case (Cons c cs)
  show ?case
    using Cons.IH [OF wrap32_range [of "h * 31 + uint c"]] by simp
qed

lemma spec_hash_range: "- (2 ^ 31) \<le> spec_hash email \<and> spec_hash email < 2 ^ 31"
  unfolding spec_hash_def by (rule foldl_wrap32_range) simp

lemma js_sar_8_div: "- (2 ^ 31) \<le> h \<Longrightarrow> h < 2 ^ 31 \<Longrightarrow> js_sar h 8 = h div 2 ^ 8"
  unfolding js_sar_def
  by (simp add: sint_signed_drop_bit_eq ToInt32_wrap32 wrap32_id drop_bit_eq_div)

lemma js_rem_abs: "0 < b \<Longrightarrow> js_rem (Math_abs x) b = \<bar>x\<bar> mod b"
  unfolding js_rem_def Math_abs_def by simp

lemma index_str_mod_10:
  "length xs = 10 \<Longrightarrow> index_str xs (x mod 10) = xs ! nat (x mod 10)"
  unfolding index_str_def by simp

lemma length_adjectives: "length adjectives = 10"
  by (simp add: adjectives_def)

lemma length_animals: "length animals = 10"
  by (simp add: animals_def)

lemma generateAnonymousName_spec_name: "generateAnonymousName email = spec_name email"
  unfolding generateAnonymousName_def spec_name_def Let_def hash_loop_spec_hash
  using spec_hash_range [of email]
  by (simp add: js_sar_8_div js_rem_abs index_str_mod_10 length_adjectives length_animals)

text \<open>
  C7. For every identifier (any sequence of UTF-16 code units), the name that
  \<open>generateAnonymousName\<close> builds is the name of the specified algorithm: the rolling hash
  \<open>hash * 31 + charCode\<close> wrapped to signed 32 bits at each step, the adjective at
  \<open>abs(hash) mod 10\<close>, the animal at \<open>abs(hash >> 8) mod 10\<close>, joined by a space. And one
  round of the code's loop, \<open>((hash << 5) - hash) + char\<close> followed by \<open>hash & hash\<close>, is
  \<open>hash * 31 + char\<close> wrapped to signed 32 bits, for every integer \<open>hash\<close> and \<open>char\<close>.
\<close>

theorem fallback_name_algorithm:
  "generateAnonymousName email = spec_name email \<and>
   hash_step hash char = wrap32 (hash * 31 + char)"
  by (simp add: generateAnonymousName_spec_name hash_step_wrap32)

theorem fallback_name_algorithm_witness:
  "generateAnonymousName (js ''alice@example.com'') = js ''Bright Hawk'' \<and>
   hash_step 2147483647 65 = 2147483682 - 2 ^ 32"
proof -
  have s: "spec_name (js ''alice@example.com'') = js ''Bright Hawk''"
    by (simp add: spec_name_def spec_hash_def wrap32_def js_def adjectives_def animals_def)
  have w: "wrap32 (2147483647 * 31 + 65) = 2147483682 - 2 ^ 32"
    by (simp add: wrap32_def)
  show ?thesis
    using fallback_name_algorithm [of "js ''alice@example.com''" 2147483647 65] s w
    by simp
qed

section \<open>Identity resolution under a failing store\<close>

lemma getFlonaName_cached:
  "cache email = Some name \<Longrightarrow> getFlonaName api cache email = (name, cache, [])"
  by (simp add: getFlonaName_def)

lemma getFlonaName_caches:
  "getFlonaName api cache email = (name, cache1, fx) \<Longrightarrow> cache1 email = Some name"
  by (auto simp: getFlonaName_def getFlonaName_try_def Let_def
      split: option.splits fetched.splits if_splits prod.splits sum.splits)

lemma getFlonaName_fallback:
  "cache email = None \<Longrightarrow> no_display_name (api email) \<Longrightarrow>
   fst (getFlonaName api cache email) = generateAnonymousName email \<and>
   fst (snd (getFlonaName api cache email)) = cache(email \<mapsto> generateAnonymousName email)"
  by (cases "api email" rule: no_display_name.cases)
     (auto simp: getFlonaName_def getFlonaName_try_def Let_def)

lemma fallback_of_sample: "generateAnonymousName (js ''a@b.c'') = js ''Swift Dragon''"
  by (simp add: generateAnonymousName_spec_name spec_name_def spec_hash_def wrap32_def
      js_def adjectives_def animals_def)

text \<open>
  C6. \<open>getFlonaName\<close> always returns a name: every throw of its body (the URIError of
  \<open>encodeURIComponent\<close>, a rejected fetch, a body that does not parse) is inside the \<open>try\<close>
  block, whose \<open>catch\<close> falls through to the fallback. For every identifier, when the name
  is not cached and the store gives no display name, the call returns the generated
  fallback name and caches it; and after any call, a second call for the same identifier
  returns the identical name from the cache, leaves the cache as it is and makes no
  lookup, whatever the store would answer then.
\<close>

theorem getFlonaName_degrades_to_fallback:
  "(case getFlonaName api cache email of
      (name1, cache1, fx1) \<Rightarrow>
        (case getFlonaName api2 cache1 email of
           (name2, cache2, fx2) \<Rightarrow> name2 = name1 \<and> cache2 = cache1 \<and> fx2 = []) \<and>
        (cache email = None \<and> no_display_name (api email) \<longrightarrow>
           name1 = generateAnonymousName email \<and>
           cache1 = cache(email \<mapsto> generateAnonymousName email)))"
proof (cases "getFlonaName api cache email")
  case (fields name1 cache1 fx1)
  have "getFlonaName api2 cache1 email = (name1, cache1, [])"
    using getFlonaName_caches [OF fields] by (rule getFlonaName_cached)
  moreover have "cache email = None \<and> no_display_name (api email) \<longrightarrow>
      name1 = generateAnonymousName email \<and>
      cache1 = cache(email \<mapsto> generateAnonymousName email)"
    using getFlonaName_fallback [of cache email api] fields by auto
  ultimately show ?thesis using fields by simp
qed

theorem getFlonaName_degrades_to_fallback_witness:
  "getFlonaName (\<lambda>e. Rejected) Map.empty (js ''a@b.c'') =
     (js ''Swift Dragon'', [js ''a@b.c'' \<mapsto> js ''Swift Dragon''],
      [LookupName (js ''a@b.c'')]) \<and>
   getFlonaName (\<lambda>e. Rejected) [js ''a@b.c'' \<mapsto> js ''Swift Dragon''] (js ''a@b.c'') =
     (js ''Swift Dragon'', [js ''a@b.c'' \<mapsto> js ''Swift Dragon''], [])"
proof -
  have ls: "\<not> lone_surrogate (js ''a@b.c'')"
    by (simp add: js_def is_high_surrogate_def is_low_surrogate_def)
  have first: "getFlonaName (\<lambda>e. Rejected) Map.empty (js ''a@b.c'') =
     (js ''Swift Dragon'', [js ''a@b.c'' \<mapsto> js ''Swift Dragon''],
      [LookupName (js ''a@b.c'')])"
    by (simp add: getFlonaName_def getFlonaName_try_def ls fallback_of_sample Let_def)
  show ?thesis
    using getFlonaName_degrades_to_fallback
      [where api = "\<lambda>e. Rejected" and cache = Map.empty and email = "js ''a@b.c''"
        and ?api2.0 = "\<lambda>e. Rejected"]
    by (auto simp: first fallback_of_sample split: prod.splits)
qed

text \<open>
  The call split at its suspension agrees with the call run to its end when nothing
  runs in between.
\<close>

lemma getFlonaName_halves:
  "getFlonaName api cache email =
     (case getFlonaName_begin cache email of
        (Known name, cache1, fx) \<Rightarrow> (name, cache1, fx)
      | (Awaiting, cache1, fx) \<Rightarrow>
          (case getFlonaName_finish (api email) cache1 email of
             (name, cache2) \<Rightarrow> (name, cache2, fx)))"
  by (auto simp: getFlonaName_def getFlonaName_try_def getFlonaName_begin_def
      getFlonaName_finish_def Let_def
      split: option.splits fetched.splits prod.splits sum.splits)

section \<open>The history that the messages route returns\<close>

lemma sort_store_of: "sort_key created_at (store_of n) = store_of n"
  unfolding store_of_def
  by (rule sort_key_id_if_sorted) (simp add: comp_def row_at_def sorted_map del: upt_Suc)

lemma findMany_store_of: "100 < n \<Longrightarrow> findMany (store_of n) = store_of 100"
  unfolding findMany_def sort_store_of
  by (simp add: store_of_def take_map del: upt_Suc)

lemma store_of_100: "store_of 100 = map row_at [1..<101]"
  by (simp add: store_of_def del: upt_Suc)

lemma spec_history_store_of:
  "100 < n \<Longrightarrow>
   spec_history (store_of n) = map (formattedMessage \<circ> row_at) [Suc (n - 100)..<Suc n]"
  unfolding spec_history_def Let_def sort_store_of
  by (simp add: store_of_def drop_map del: upt_Suc)

lemma formattedMessage_row_at_inj:
  "formattedMessage (row_at i) = formattedMessage (row_at j) \<Longrightarrow> i = j"
  by (simp add: formattedMessage_def row_at_def)

text \<open>
  C2 (the code departs from the claim). On a store of \<open>n > 100\<close> messages, the \<open>i\<close>-th
  created at time \<open>i\<close>, the GET handler answers with the messages created at times 1 to
  100, oldest first: the first 100 in ascending order, which are the oldest, and these
  are the messages that the history load shows. The newest message, created at time
  \<open>n\<close>, is not among them, while the most recent 100 of the claim are those created at
  times \<open>n - 99\<close> to \<open>n\<close> and hold it.
\<close>

theorem history_is_oldest_hundred:
  "100 < n \<Longrightarrow>
   GET_messages (Some (store_of n)) =
     Response True (Some (map (formattedMessage \<circ> row_at) [1..<101])) \<and>
   messages (fst (load_history s (Resolved (GET_messages (Some (store_of n)))))) =
     map (formattedMessage \<circ> row_at) [1..<101] \<and>
   formattedMessage (row_at n) \<notin> set (map (formattedMessage \<circ> row_at) [1..<101]) \<and>
   spec_history (store_of n) = map (formattedMessage \<circ> row_at) [Suc (n - 100)..<Suc n] \<and>
   formattedMessage (row_at n) \<in> set (spec_history (store_of n))"
proof -
  assume n: "100 < n"
  have a: "GET_messages (Some (store_of n)) =
      Response True (Some (map (formattedMessage \<circ> row_at) [1..<101]))"
    by (simp add: GET_messages_def findMany_store_of [OF n] store_of_100)
  have b: "formattedMessage (row_at n) \<notin> set (map (formattedMessage \<circ> row_at) [1..<101])"
    using n by (auto dest: formattedMessage_row_at_inj)
  have c: "formattedMessage (row_at n) \<in> set (spec_history (store_of n))"
    using n by (simp add: spec_history_store_of)
  have l: "messages (fst (load_history s (Resolved (GET_messages (Some (store_of n)))))) =
      map (formattedMessage \<circ> row_at) [1..<101]"
    unfolding a by (simp add: load_history_def seed_history_def)
  show ?thesis using a b c l spec_history_store_of [OF n] by simp
qed

theorem history_is_oldest_hundred_witness:
  "(100::nat) < 101 \<and>
   GET_messages (Some (store_of 101)) =
     Response True (Some (map (formattedMessage \<circ> row_at) [1..<101])) \<and>
   messages (fst (load_history initial_chat (Resolved (GET_messages (Some (store_of 101)))))) =
     map (formattedMessage \<circ> row_at) [1..<101] \<and>
   formattedMessage (row_at 101) \<notin> set (map (formattedMessage \<circ> row_at) [1..<101]) \<and>
   formattedMessage (row_at 101) \<in> set (spec_history (store_of 101))"
proof -
  have n: "(100::nat) < 101" by simp
  show ?thesis using history_is_oldest_hundred [OF n, of initial_chat] n by blast
qed

section \<open>Sending\<close>

text \<open>
  The claim that a failed publish leaves the text in the input fails: with the user and
  the room there, the text \<open>hello\<close>, a persistence that succeeds and a publish that fails,
  the input is empty when \<open>handleSend\<close> returns, and the user is alerted later.
\<close>

theorem send_clears_input_on_failure_counterexample:
  "press_send (initial_chat\<lparr>room := Some (Room (js ''campus-global''))\<rparr>) True
     (Resolved (Response True None)) False
     \<lparr>text_input = js ''hello'', isTypingRef = False, typingTimeoutRef = False\<rparr> =
   (\<lparr>text_input = [], isTypingRef = False, typingTimeoutRef = False\<rparr>,
    [PostMessage (js ''hello'')],
    [Publish (js ''hello''), ConsoleError SendFailed, Alert])"
  by (simp add: press_send_def handleSend_def trim_def js_def is_white_space_def
      callback_now_def callback_later_def sendMessage_begin_def sendMessage_rest_def
      send_publish_def send_catch_def)

text \<open>
  C3 (amended). For every send of a text that is not blank, \<open>handleSend\<close> clears the input
  at once, right after it has called \<open>onSend\<close> with the trimmed text and without waiting
  for the send: the input afterwards is the one \<open>handleSend\<close> leaves, whatever the network
  answers, and it is empty whether the publish later succeeds or fails. When the publish
  step is reached and fails, the user is notified by an alert.
\<close>

theorem send_clears_input:
  "trim (text_input i) \<noteq> [] \<Longrightarrow>
   (case press_send s has_user db publish_ok i of
      (i1, now_fx, later_fx) \<Rightarrow>
        i1 = fst (handleSend i) \<and>
        text_input i1 = [] \<and>
        (room s \<noteq> None \<and> has_user \<and> \<not> persist_throws db \<and> \<not> publish_ok \<longrightarrow>
           Publish (trim (text_input i)) \<in> set later_fx \<and> Alert \<in> set later_fx))"
  by (cases db rule: persist_throws.cases)
     (auto simp: press_send_def handleSend_def callback_now_def callback_later_def
        sendMessage_begin_def sendMessage_rest_def send_publish_def send_catch_def
        split: option.splits)

theorem send_clears_input_witness:
  "trim (js '' hello '') = js ''hello'' \<and>
   press_send (initial_chat\<lparr>room := Some (Room (js ''campus-global''))\<rparr>) True
     (Resolved (Response True None)) True
     \<lparr>text_input = js '' hello '', isTypingRef = True, typingTimeoutRef = True\<rparr> =
   (\<lparr>text_input = [], isTypingRef = False, typingTimeoutRef = True\<rparr>,
    [PostMessage (js ''hello''), TypingStop], [Publish (js ''hello'')])"
proof -
  let ?s = "initial_chat\<lparr>room := Some (Room (js ''campus-global''))\<rparr>"
  let ?i = "\<lparr>text_input = js '' hello '', isTypingRef = True, typingTimeoutRef = True\<rparr>"
  have t: "trim (js '' hello '') = js ''hello''"
    by (simp add: trim_def js_def is_white_space_def)
  have ne: "trim (text_input ?i) \<noteq> []"
    by (simp add: trim_def js_def is_white_space_def)
  have h: "fst (handleSend ?i) =
      \<lparr>text_input = [], isTypingRef = False, typingTimeoutRef = True\<rparr>"
    by (simp add: handleSend_def trim_def js_def is_white_space_def)
  have fx: "snd (press_send ?s True (Resolved (Response True None)) True ?i) =
      ([PostMessage (js ''hello''), TypingStop], [Publish (js ''hello'')])"
    by (simp add: press_send_def handleSend_def trim_def js_def is_white_space_def
        callback_now_def callback_later_def sendMessage_begin_def sendMessage_rest_def
        send_publish_def handleTyping_def)
  show ?thesis
    using send_clears_input [OF ne, where s = ?s and has_user = True
        and db = "Resolved (Response True None)" and publish_ok = True] t h fx
    by (auto split: prod.splits)
qed

text \<open>
  C4 (the code departs from the claim). For every send with the room and the user there,
  the persistence request is issued first. When it is answered with a status that is not
  a success, the failure is logged and the publish follows, as the claim says. But when
  the persistence request itself throws (the fetch rejects, or the error body, read only
  to be logged, cannot be parsed), the \<open>catch\<close> block that the two steps share logs and
  alerts, and nothing is published.
\<close>

theorem send_aborted_when_persistence_throws:
  "room s \<noteq> None \<Longrightarrow> has_user \<Longrightarrow>
   (persist_throws db \<longrightarrow>
      sendMessage s has_user db publish_ok txt =
        [PostMessage txt, ConsoleError SendFailed, Alert] \<and>
      Publish txt \<notin> set (sendMessage s has_user db publish_ok txt)) \<and>
   (persist_refused db \<longrightarrow>
      sendMessage s has_user db publish_ok txt =
        [PostMessage txt, ConsoleError SaveFailed] @ send_publish publish_ok txt \<and>
      Publish txt \<in> set (sendMessage s has_user db publish_ok txt))"
  by (cases db rule: persist_throws.cases)
     (auto simp: sendMessage_def sendMessage_begin_def sendMessage_rest_def send_publish_def
        send_catch_def split: option.splits)

theorem send_aborted_when_persistence_throws_witness:
  "sendMessage (initial_chat\<lparr>room := Some campus_room\<rparr>) True Rejected True (js ''hello'') =
     [PostMessage (js ''hello''), ConsoleError SendFailed, Alert] \<and>
   sendMessage (initial_chat\<lparr>room := Some campus_room\<rparr>) True
     (Resolved (Response False (Some ()))) True (js ''hello'') =
     [PostMessage (js ''hello''), ConsoleError SaveFailed, Publish (js ''hello'')]"
proof -
  have r: "room (initial_chat\<lparr>room := Some campus_room\<rparr>) \<noteq> None"
    by simp
  have a: "persist_throws Rejected" and b: "persist_refused (Resolved (Response False (Some ())))"
    by simp_all
  note T1 = send_aborted_when_persistence_throws [OF r, where has_user = True and db = Rejected and publish_ok = True
      and ?txt = "js ''hello''"]
  note T2 = send_aborted_when_persistence_throws [OF r, where has_user = True
      and db = "Resolved (Response False (Some ()))" and publish_ok = True
      and ?txt = "js ''hello''"]
  show ?thesis
    using T1 T2 a b by (simp add: send_publish_def)
qed

section \<open>Presence and teardown\<close>

text \<open>
  C9. For every presence notification that arrives while the room is held, whatever the
  event carries, the handler queries the member list and replaces the held presence set
  with the list the query returns: the result is the same for any event payload and any
  previously held set, and an empty list makes the set empty. (A query that rejects
  leaves the set as it was; the guard of the handler skips the query when no room is
  held.)
\<close>

theorem presence_replaced_wholesale:
  "(currentRoomRef s \<noteq> None \<longrightarrow>
      presenceSub s presenceEvent (Some members) = (s\<lparr>onlineUsers := members\<rparr>, [PresenceGet]) \<and>
      presenceSub (s\<lparr>onlineUsers := previous\<rparr>) presenceEvent' (Some members) =
        presenceSub s presenceEvent (Some members) \<and>
      onlineUsers (fst (presenceSub s presenceEvent (Some []))) = [] \<and>
      presenceSub s presenceEvent None = (s, [PresenceGet])) \<and>
   (currentRoomRef s = None \<longrightarrow> presenceSub s presenceEvent query = (s, []))"
  by (simp add: presenceSub_def)

theorem presence_replaced_wholesale_witness:
  "onlineUsers active_chat = [alice_member] \<and>
   onlineUsers (fst (presenceSub active_chat alice_member (Some []))) = [] \<and>
   snd (presenceSub active_chat alice_member (Some [])) = [PresenceGet]"
proof -
  have r: "currentRoomRef active_chat \<noteq> None" and o: "onlineUsers active_chat = [alice_member]"
    by (simp_all add: active_chat_def)
  show ?thesis
    using presence_replaced_wholesale [where s = active_chat and presenceEvent = alice_member and members = "[]"
        and previous = "[]" and presenceEvent' = alice_member and query = None] r o
    by simp
qed

lemma filter_Unsubscribe_calls:
  "filter is_Unsubscribe (concat (map (\<lambda>sub. Unsubscribe sub # (if ut sub then [ConsoleError UnsubscribeFailed] else [])) subs)) = map Unsubscribe subs"
  by (induction subs) auto

lemma teardown_calls_only:
  "list_all teardown_call (concat (map (\<lambda>sub. Unsubscribe sub # (if ut sub then [ConsoleError UnsubscribeFailed] else [])) subs))"
  by (induction subs) auto

lemma messageSub_begin_after_clear:
  "messageIdsRef s1 = {} \<Longrightarrow>
   (case messageSub_begin now s1 messageEvent of
           (s2, p) \<Rightarrow>
             or_else (serial messageEvent) now \<in> messageIdsRef s2 \<and>
             (case p of
                Some q \<Rightarrow> p_messageId q = or_else (serial messageEvent) now
              | None \<Rightarrow> map id_msg (messages s2) =
                  map id_msg (messages s1) @ [or_else (serial messageEvent) now]))"
  by (simp add: messageSub_begin_def Let_def append_message_def)

text \<open>
  C10. The unmount cleanup calls \<open>unsubscribe\<close> on every registered subscription, once
  each and in order, whether or not an earlier one throws, and empties the list; it
  detaches the room if one is held and nulls the handle, clears the dedup set and resets
  the initialization flag. Nothing else of the component changes, in particular neither
  the realtime client nor the chat client, and the only calls made are \<open>unsubscribe\<close>,
  \<open>detach\<close> and the logging of their errors. After it, a delivered message is taken
  whatever its id (it enters the dedup set and is appended or awaits its name).
\<close>

theorem teardown_frame:
  "(case cleanup unsubscribe_throws detach_throws s of
      (s1, fx) \<Rightarrow>
        filter is_Unsubscribe fx = map Unsubscribe (subscriptionsRef s) \<and>
        subscriptionsRef s1 = [] \<and>
        (case currentRoomRef s of None \<Rightarrow> True | Some r \<Rightarrow> Detach r \<in> set fx) \<and>
        currentRoomRef s1 = None \<and>
        messageIdsRef s1 = {} \<and>
        isInitializedRef s1 = False \<and>
        realtimeClientRef s1 = realtimeClientRef s \<and>
        chatClientRef s1 = chatClientRef s \<and>
        list_all teardown_call fx \<and>
        s1 = s\<lparr>subscriptionsRef := [], currentRoomRef := None, messageIdsRef := {},
               isInitializedRef := False\<rparr> \<and>
        (case messageSub_begin now s1 messageEvent of
           (s2, p) \<Rightarrow>
             or_else (serial messageEvent) now \<in> messageIdsRef s2 \<and>
             (case p of
                Some q \<Rightarrow> p_messageId q = or_else (serial messageEvent) now
              | None \<Rightarrow> map id_msg (messages s2) =
                  map id_msg (messages s1) @ [or_else (serial messageEvent) now])))"
proof -
  let ?s1 = "s\<lparr>subscriptionsRef := [], currentRoomRef := None, messageIdsRef := {},
               isInitializedRef := False\<rparr>"
  have ids: "messageIdsRef ?s1 = {}" by simp
  have fresh: "(case messageSub_begin now ?s1 messageEvent of
           (s2, p) \<Rightarrow>
             or_else (serial messageEvent) now \<in> messageIdsRef s2 \<and>
             (case p of
                Some q \<Rightarrow> p_messageId q = or_else (serial messageEvent) now
              | None \<Rightarrow> map id_msg (messages s2) =
                  map id_msg (messages ?s1) @ [or_else (serial messageEvent) now]))"
    by (rule messageSub_begin_after_clear [OF ids])
  have detach: "(case currentRoomRef s of None \<Rightarrow> True
       | Some r \<Rightarrow> Detach r \<in> set (xs @ (case currentRoomRef s of None \<Rightarrow> []
           | Some r \<Rightarrow> Detach r # (if detach_throws then [ConsoleError DetachFailed] else []))))" for xs
    by (simp split: option.splits)
  have td: "list_all teardown_call (case currentRoomRef s of None \<Rightarrow> []
           | Some r \<Rightarrow> Detach r # (if detach_throws then [ConsoleError DetachFailed] else []))"
    by (simp split: option.splits)
  have un: "filter is_Unsubscribe (case currentRoomRef s of None \<Rightarrow> []
           | Some r \<Rightarrow> Detach r # (if detach_throws then [ConsoleError DetachFailed] else [])) = []"
    by (simp split: option.splits)
  show ?thesis
    unfolding cleanup_def prod.case
    using fresh detach td un by (simp add: filter_Unsubscribe_calls teardown_calls_only)
qed

theorem teardown_frame_witness:
  "cleanup (\<lambda>sub. sub = ReactionSub) False active_chat =
     (active_chat\<lparr>subscriptionsRef := [], currentRoomRef := None, messageIdsRef := {},
        isInitializedRef := False\<rparr>,
      [Unsubscribe MessageSub, Unsubscribe ReactionSub, ConsoleError UnsubscribeFailed,
       Unsubscribe (TypingSub (Some alice)), Unsubscribe PresenceSub, Detach campus_room]) \<and>
   js ''m1'' \<in> messageIdsRef active_chat \<and>
   snd (messageSub_begin (js ''17'')
     (active_chat\<lparr>subscriptionsRef := [], currentRoomRef := None, messageIdsRef := {},
        isInitializedRef := False\<rparr>)
     \<lparr>serial = Some (js ''m1''), ev_clientId = Some bob, ev_text = Some (js ''hi''),
      ev_timestamp = 17\<rparr>) =
   Some \<lparr>p_messageId = js ''m1'', p_clientEmail = bob, p_text = js ''hi'', p_timestamp = 17\<rparr>"
proof -
  have c: "cleanup (\<lambda>sub. sub = ReactionSub) False active_chat =
     (active_chat\<lparr>subscriptionsRef := [], currentRoomRef := None, messageIdsRef := {},
        isInitializedRef := False\<rparr>,
      [Unsubscribe MessageSub, Unsubscribe ReactionSub, ConsoleError UnsubscribeFailed,
       Unsubscribe (TypingSub (Some alice)), Unsubscribe PresenceSub, Detach campus_room])"
    by (simp add: cleanup_def active_chat_def)
  have m: "js ''m1'' \<in> messageIdsRef active_chat"
    by (simp add: active_chat_def)
  have b: "snd (messageSub_begin (js ''17'')
     (active_chat\<lparr>subscriptionsRef := [], currentRoomRef := None, messageIdsRef := {},
        isInitializedRef := False\<rparr>)
     \<lparr>serial = Some (js ''m1''), ev_clientId = Some bob, ev_text = Some (js ''hi''),
      ev_timestamp = 17\<rparr>) =
   Some \<lparr>p_messageId = js ''m1'', p_clientEmail = bob, p_text = js ''hi'', p_timestamp = 17\<rparr>"
    by (simp add: messageSub_begin_def or_else_def Let_def js_def bob_def)
  show ?thesis
    using teardown_frame [where unsubscribe_throws = "\<lambda>sub. sub = ReactionSub"
        and detach_throws = False and s = active_chat and now = "js ''17''"
        and messageEvent = "\<lparr>serial = Some (js ''m1''), ev_clientId = Some bob,
          ev_text = Some (js ''hi''), ev_timestamp = 17\<rparr>"] c m b
    by simp
qed

section \<open>The typing handler\<close>

lemma foldl_Set_add:
  "distinct acc \<Longrightarrow>
   distinct (foldl (\<lambda>s x. Set_add x s) acc xs) \<and>
   set (foldl (\<lambda>s x. Set_add x s) acc xs) = set acc \<union> set xs"
  by (induction xs arbitrary: acc) (auto simp: Set_add_def)

lemma new_Set_props: "distinct (new_Set xs) \<and> set (new_Set xs) = set xs"
  using foldl_Set_add [of "[]" xs] by (simp add: new_Set_def)

lemma typing_set_props:
  "distinct (typing_set local_email currentlyTyping) \<and>
   set (typing_set (Some me) currentlyTyping) = (if me = [] then set currentlyTyping else set currentlyTyping - {me})"
  by (auto simp: typing_set_def Let_def Set_delete_def new_Set_props split: option.splits)

lemma getFlonaName_cache_upd:
  "fst (snd (getFlonaName api cache e)) = cache(e \<mapsto> fst (getFlonaName api cache e))"
  by (auto simp: getFlonaName_def getFlonaName_try_def Let_def
      split: option.splits fetched.splits prod.splits sum.splits)

lemma getFlonaName_fx:
  "set (snd (snd (getFlonaName api cache e))) \<subseteq> {LookupName e}"
  by (auto simp: getFlonaName_def getFlonaName_try_def Let_def
      split: option.splits fetched.splits prod.splits sum.splits if_splits)

lemma getFlonaName_local:
  "cache' e = cache e \<Longrightarrow> fst (getFlonaName api cache' e) = fst (getFlonaName api cache e)"
  by (auto simp: getFlonaName_def getFlonaName_try_def Let_def
      split: option.splits fetched.splits prod.splits sum.splits)

lemma resolve_names_map:
  "distinct es \<Longrightarrow> (\<forall>e \<in> set es. cache' e = cache e) \<Longrightarrow>
   fst (resolve_names api cache' es) = map (\<lambda>e. fst (getFlonaName api cache e)) es"
proof (induction es arbitrary: cache')
  case Nil
  then show ?case by simp
next
  case (Cons e es)
  obtain n c1 fx1 where g: "getFlonaName api cache' e = (n, c1, fx1)"
    by (cases "getFlonaName api cache' e") auto
  have c1: "c1 = cache'(e \<mapsto> n)"
    using getFlonaName_cache_upd [of api cache' e] g by simp
  have n: "n = fst (getFlonaName api cache e)"
    using getFlonaName_local [of cache' e cache api] Cons.prems g by simp
  have "\<forall>x \<in> set es. c1 x = cache x"
    using Cons.prems c1 by auto
  with Cons have "fst (resolve_names api c1 es) = map (\<lambda>e. fst (getFlonaName api cache e)) es"
    by simp
  then show ?case using g n by (auto split: prod.splits)
qed

lemma resolve_names_fx:
  "set (snd (snd (resolve_names api cache es))) \<subseteq> LookupName ` set es"
proof (induction es arbitrary: cache)
  case Nil
  then show ?case by simp
next
  case (Cons e es)
  obtain n c1 fx1 where g: "getFlonaName api cache e = (n, c1, fx1)"
    by (cases "getFlonaName api cache e") auto
  have "set fx1 \<subseteq> {LookupName e}"
    using getFlonaName_fx [of api cache e] g by simp
  then show ?case using g Cons.IH [of c1] by (auto split: prod.splits)
qed

text \<open>
  C8. For every typing event handled for a local user with an identifier, the handler
  takes the event's whole currently-typing set, removes the local identifier and
  resolves each remaining identifier with \<open>getFlonaName\<close>: the rendered names are exactly
  the names of the identifiers other than the local one, each as \<open>getFlonaName\<close> resolves
  it from the cache the handler found. The local identifier is not among the identifiers
  resolved and no lookup is made for it, and the rendered set does not depend on the set
  held before: it is replaced wholesale.
\<close>

theorem typing_excludes_local_user:
  "me \<noteq> [] \<Longrightarrow>
   (case typingSub (Some me) api s currentlyTyping of
      (s1, fx) \<Rightarrow>
        set (typingUsers s1) =
          (\<lambda>e. fst (getFlonaName api (flonaNameCacheRef s) e)) ` (set currentlyTyping - {me}) \<and>
        distinct (typingUsers s1) \<and>
        me \<notin> set (typing_set (Some me) currentlyTyping) \<and>
        LookupName me \<notin> set fx \<and>
        typingUsers (fst (typingSub (Some me) api (s\<lparr>typingUsers := previous\<rparr>) currentlyTyping)) =
          typingUsers s1)"
proof -
  assume me: "me \<noteq> []"
  let ?ts = "typing_set (Some me) currentlyTyping"
  have d: "distinct ?ts" and st: "set ?ts = set currentlyTyping - {me}"
    using typing_set_props [of "Some me" currentlyTyping me] me by simp_all
  have names: "fst (resolve_names api (flonaNameCacheRef s) ?ts) =
      map (\<lambda>e. fst (getFlonaName api (flonaNameCacheRef s) e)) ?ts"
    by (rule resolve_names_map [OF d]) simp
  have fx: "set (snd (snd (resolve_names api (flonaNameCacheRef s) ?ts))) \<subseteq> LookupName ` set ?ts"
    by (rule resolve_names_fx)
  show ?thesis
    using names fx st
    by (auto simp: typingSub_def new_Set_props split: prod.splits)
qed


lemma alice_bob_distinct: "alice \<noteq> bob" "alice \<noteq> []" "bob \<noteq> []"
  by (simp_all add: alice_def bob_def js_def)

theorem typing_excludes_local_user_witness:
  "alice \<noteq> [] \<and>
   set (typingUsers (fst (typingSub (Some alice) (\<lambda>e. Rejected) active_chat [alice, bob]))) =
     {fst (getFlonaName (\<lambda>e. Rejected) Map.empty bob)} \<and>
   LookupName alice \<notin> set (snd (typingSub (Some alice) (\<lambda>e. Rejected) active_chat [alice, bob]))"
proof -
  have c: "flonaNameCacheRef active_chat = Map.empty"
    by (simp add: active_chat_def initial_chat_def)
  have i: "set [alice, bob] - {alice} = {bob}"
    using alice_bob_distinct by auto
  show ?thesis
    using typing_excludes_local_user [OF alice_bob_distinct(2), where api = "\<lambda>e. Rejected" and s = active_chat
        and currentlyTyping = "[alice, bob]" and previous = "[]"] alice_bob_distinct(2)
    unfolding c i
    by (auto split: prod.splits)
qed

section \<open>Deduplication of delivered messages\<close>

lemma foldl_insert_ids:
  "foldl (\<lambda>ids msg. insert (id_msg msg) ids) ids0 hist = ids0 \<union> id_msg ` set hist"
  by (induction hist arbitrary: ids0) auto

lemma seed_history_simps:
  "messages (seed_history s hist) = hist"
  "messageIdsRef (seed_history s hist) = messageIdsRef s \<union> id_msg ` set hist"
  by (simp_all add: seed_history_def foldl_insert_ids)

lemma messageSub_begin_discards:
  "or_else (serial ev) now \<in> messageIdsRef s \<Longrightarrow> messageSub_begin now s ev = (s, None)"
  by (simp add: messageSub_begin_def)

lemma messageSub_resume_fields:
  "map id_msg (messages (messageSub_resume l answer s p)) =
     map id_msg (messages s) @ [p_messageId p]"
  "messageIdsRef (messageSub_resume l answer s p) = messageIdsRef s"
  by (simp_all add: messageSub_resume_def append_message_def split: prod.splits lookup.splits)

lemma messageSub_resume_appends:
  "\<exists>m. messages (messageSub_resume l answer s p) = messages s @ [m] \<and> id_msg m = p_messageId p"
  by (simp add: messageSub_resume_def append_message_def split: prod.splits lookup.splits)

lemma distinct_move_to_shown:
  assumes "k < length S" "distinct (M @ map f S)"
  shows "distinct ((M @ [f (S ! k)]) @ map f (take k S @ drop (Suc k) S))"
proof -
  have S: "S = take k S @ S ! k # drop (Suc k) S"
    using assms(1) by (rule id_take_nth_drop)
  have "distinct (M @ map f (take k S @ S ! k # drop (Suc k) S))"
    using assms(2) S by simp
  then show ?thesis by auto
qed

lemma set_move_to_shown:
  assumes "k < length S"
  shows "set ((M @ [f (S ! k)]) @ map f (take k S @ drop (Suc k) S)) = set (M @ map f S)"
proof -
  have S: "S = take k S @ S ! k # drop (Suc k) S"
    using assms(1) by (rule id_take_nth_drop)
  have "set (M @ map f S) = set (M @ map f (take k S @ S ! k # drop (Suc k) S))"
    using S by simp
  then show ?thesis by auto
qed

lemma deliver_deduplicated:
  assumes inv: "deduplicated v" and live: "is_live d"
  shows "deduplicated (deliver v d)"
proof (cases d)
  case (Arrives now ev)
  show ?thesis
    using inv unfolding Arrives deduplicated_def view_ids_def deliver_def
    by (auto simp: messageSub_begin_def Let_def append_message_def
        split: prod.splits option.splits if_splits)
next
  case (Resumes k answer)
  show ?thesis
  proof (cases "k < length (suspended v)")
    case True
    obtain p l where pl: "suspended v ! k = (p, l)"
      by (cases "suspended v ! k") auto
    let ?f = "\<lambda>w. p_messageId (fst w)"
    have d: "distinct ((map id_msg (messages (chat_of v)) @ [?f (suspended v ! k)]) @
        map ?f (take k (suspended v) @ drop (Suc k) (suspended v)))"
      using inv True unfolding deduplicated_def view_ids_def
      by (intro distinct_move_to_shown) auto
    have s: "set ((map id_msg (messages (chat_of v)) @ [?f (suspended v ! k)]) @
        map ?f (take k (suspended v) @ drop (Suc k) (suspended v))) =
        set (map id_msg (messages (chat_of v)) @ map ?f (suspended v))"
      using True by (rule set_move_to_shown)
    show ?thesis
      using inv True d s pl unfolding Resumes deduplicated_def view_ids_def deliver_def
      by (simp add: messageSub_resume_fields)
  next
    case False
    then show ?thesis using inv by (simp add: Resumes deliver_def)
  qed
next
  case (Loads answer)
  then show ?thesis using live by simp
qed

lemma deliver_appends:
  "is_live d \<Longrightarrow> \<exists>tail. messages (chat_of (deliver v d)) = messages (chat_of v) @ tail"
proof (cases d)
  case (Arrives now ev)
  then show ?thesis
    by (auto simp: deliver_def messageSub_begin_def Let_def append_message_def
        split: prod.splits option.splits if_splits)
next
  case (Resumes k answer)
  show ?thesis
  proof (cases "k < length (suspended v)")
    case True
    obtain p l where pl: "suspended v ! k = (p, l)"
      by (cases "suspended v ! k") auto
    show ?thesis
      using True pl messageSub_resume_appends [of l answer "chat_of v" p]
      by (auto simp: Resumes deliver_def)
  next
    case False
    then show ?thesis by (simp add: Resumes deliver_def)
  qed
next
  case (Loads answer)
  assume "is_live d"
  then show ?thesis using Loads by simp
qed

lemma deliveries_deduplicated:
  "deduplicated v \<Longrightarrow> list_all is_live ds \<Longrightarrow> deduplicated (deliveries v ds)"
  unfolding deliveries_def
  by (induction ds arbitrary: v) (auto intro: deliver_deduplicated)

lemma deliveries_appends:
  "list_all is_live ds \<Longrightarrow>
   \<exists>tail. messages (chat_of (deliveries v ds)) = messages (chat_of v) @ tail"
  unfolding deliveries_def
proof (induction ds arbitrary: v)
  case Nil
  then show ?case by simp
next
  case (Cons d ds)
  obtain t1 where t1: "messages (chat_of (deliver v d)) = messages (chat_of v) @ t1"
    using deliver_appends [of d v] Cons.prems by auto
  obtain t2 where "messages (chat_of (foldl deliver (deliver v d) ds)) =
      messages (chat_of (deliver v d)) @ t2"
    using Cons.IH [of "deliver v d"] Cons.prems by auto
  then show ?case using t1 by simp
qed

lemma filter_distinct_key:
  "distinct (map f xs) \<Longrightarrow> x \<in> set xs \<Longrightarrow> filter (\<lambda>y. f y = f x) xs = [x]"
proof (induction xs)
  case Nil
  then show ?case by simp
next
  case (Cons a xs)
  show ?case
  proof (cases "a = x")
    case True
    have "f x \<notin> f ` set xs"
      using Cons.prems(1) True by simp
    then have "\<forall>y \<in> set xs. f y \<noteq> f x"
      by (metis imageI)
    then have "filter (\<lambda>y. f y = f x) xs = []"
      by (simp add: filter_empty_conv)
    then show ?thesis using True by simp
  next
    case False
    then have "f a \<noteq> f x" using Cons.prems by auto
    then show ?thesis using Cons False by auto
  qed
qed

text \<open>
  What the dedup set does achieve. After a history load, a live event whose id is one of
  the loaded ids is discarded: nothing changes and the visible list keeps the length of
  the history. And after a load of messages with distinct ids, as long as only live
  events arrive and their handlers resume, in any order, no id is shown twice: the
  membership test and the \<open>add\<close> are both in the part of the handler that runs before
  its first suspension.
\<close>

lemma live_after_history_deduplicated:
  "distinct (map id_msg hist) \<Longrightarrow> list_all is_live ds \<Longrightarrow>
   (or_else (serial messageEvent) now \<in> id_msg ` set hist \<longrightarrow>
      messageSub_begin now (seed_history s hist) messageEvent = (seed_history s hist, None) \<and>
      length (messages (fst (messageSub_begin now (seed_history s hist) messageEvent))) =
        length hist) \<and>
   (let v = deliveries \<lparr>chat_of = seed_history s hist, suspended = [], made = []\<rparr> ds
    in distinct (map id_msg (messages (chat_of v))) \<and>
       take (length hist) (messages (chat_of v)) = hist \<and>
       (\<forall>m \<in> set hist. filter (\<lambda>x. id_msg x = id_msg m) (messages (chat_of v)) = [m]))"
proof -
  assume dh: "distinct (map id_msg hist)" and lv: "list_all is_live ds"
  let ?init = "\<lparr>chat_of = seed_history s hist, suspended = [], made = []\<rparr>"
  let ?final = "deliveries ?init ds"
  have a: "or_else (serial messageEvent) now \<in> id_msg ` set hist \<longrightarrow>
      messageSub_begin now (seed_history s hist) messageEvent = (seed_history s hist, None)"
    by (auto intro: messageSub_begin_discards simp: seed_history_simps)
  have "deduplicated ?init"
    using dh by (auto simp: deduplicated_def view_ids_def seed_history_simps)
  then have "deduplicated ?final" using lv by (rule deliveries_deduplicated)
  then have d: "distinct (map id_msg (messages (chat_of ?final)))"
    by (simp add: deduplicated_def view_ids_def)
  obtain tail where t: "messages (chat_of ?final) = hist @ tail"
    using deliveries_appends [OF lv, of ?init] by (auto simp: seed_history_simps)
  have once: "\<forall>m \<in> set hist. filter (\<lambda>x. id_msg x = id_msg m) (messages (chat_of ?final)) = [m]"
  proof
    fix m assume "m \<in> set hist"
    then have "m \<in> set (messages (chat_of ?final))" using t by simp
    with d show "filter (\<lambda>x. id_msg x = id_msg m) (messages (chat_of ?final)) = [m]"
      by (rule filter_distinct_key)
  qed
  show ?thesis
    using a d t once by (simp add: Let_def seed_history_simps)
qed


text \<open>
  Two events of one sender whose name is not cached make two lookups, and a retry of the
  activation after a failed \<open>presence.enter\<close> fetches the history again while the
  subscriptions of the first run are still registered.
\<close>

lemma retry_refetches_history:
  "map at (tasks (run fresh_surface retry_events)) = [AwaitHistory] \<and>
   subscriptionsRef (chat_s (run fresh_surface retry_events)) =
     [MessageSub, ReactionSub, TypingSub (Some alice), PresenceSub] \<and>
   last (trace (run fresh_surface retry_events)) = FetchHistory"
  by code_simp

lemma two_lookups_for_one_sender:
  "made (deliveries fresh_view [Arrives (js ''9'') (live ''m1''), Arrives (js ''9'') (live ''m3'')]) =
     [LookupName bob, LookupName bob]"
  by code_simp



section \<open>Activation\<close>

lemma counts_append [simp]:
  "connection_attempts (a @ b) = connection_attempts a + connection_attempts b"
  "room_attaches (a @ b) = room_attaches a + room_attaches b"
  by (simp_all add: connection_attempts_def room_attaches_def)

lemma counts_Nil [simp]: "connection_attempts [] = 0" "room_attaches [] = 0"
  by (simp_all add: connection_attempts_def room_attaches_def)

lemma counts_Cons [simp]:
  "connection_attempts (e # fx) = (case e of NewRealtime c \<Rightarrow> 1 | _ \<Rightarrow> 0) + connection_attempts fx"
  "room_attaches (e # fx) = (case e of Attach r \<Rightarrow> 1 | _ \<Rightarrow> 0) + room_attaches fx"
  by (simp_all add: connection_attempts_def room_attaches_def split: effect.splits)

lemma counts_Subscribe [simp]:
  "connection_attempts (map Subscribe subs) = 0" "room_attaches (map Subscribe subs) = 0"
  by (induction subs) simp_all

lemma load_history_frame:
  "load_history s h = (s1, fx) \<Longrightarrow>
   currentRoomRef s1 = currentRoomRef s \<and> isInitializedRef s1 = isInitializedRef s \<and>
   room s1 = room s \<and> realtimeClientRef s1 = realtimeClientRef s \<and>
   subscriptionsRef s1 = subscriptionsRef s \<and>
   connection_attempts fx = 0 \<and> room_attaches fx = 0"
  by (auto simp: load_history_def seed_history_def split: fetched.splits if_splits option.splits)

lemma Activate_noop: "isInitializedRef (chat_s y) \<Longrightarrow> step y (Activate connected u) = y"
  by (simp add: step_def setupChat_def open_connection_def finish_def)

lemma activation_inv_fresh: "activation_inv fresh_surface"
  by (simp add: activation_inv_def fresh_surface_def initial_chat_def)

lemma activation_inv_Activate:
  "activation_inv y \<Longrightarrow> activation_inv (step y (Activate connected u))"
  by (cases "isInitializedRef (chat_s y)")
     (auto simp: Activate_noop step_def setupChat_def open_connection_def finish_def activation_inv_def Let_def
        awaits_room_def split: option.splits)

lemma activation_inv_EffectCleanup: "activation_inv y \<Longrightarrow> activation_inv (step y EffectCleanup)"
  by (auto simp: step_def activation_inv_def unmount_tasks_def awaits_room_def list_all_iff)


lemma activation_inv_Resume_single:
  assumes inv: "activation_inv y" and ts: "tasks y = [t]" and ok: "\<not> failure a"
  shows "activation_inv (step y (Resume 0 a))"
proof -
  have flag: "isInitializedRef (chat_s y)"
    using inv ts by (auto simp: activation_inv_def)
  show ?thesis
  proof (cases "at t")
    case AwaitConnection
    then show ?thesis
      using inv ts ok flag
      by (cases a)
         (auto simp: step_def resume_def after_connect_def after_room_def finish_def
            activation_inv_def awaits_room_def Let_def split: if_splits)
  next
    case AwaitRoomsGet
    then show ?thesis
      using inv ts ok flag
      by (cases a)
         (auto simp: step_def resume_def finish_def activation_inv_def awaits_room_def
            split: option.splits)
  next
    case AwaitAttach
    then show ?thesis
      using inv ts ok flag
      by (cases a)
         (auto simp: step_def resume_def after_room_def finish_def activation_inv_def
            awaits_room_def)
  next
    case AwaitHistory
    show ?thesis
    proof (cases a)
      case (HistoryAnswer h)
      obtain s1 fx where l: "load_history (chat_s y) h = (s1, fx)"
        by (cases "load_history (chat_s y) h") auto
      show ?thesis
        using inv ts flag AwaitHistory HistoryAnswer l load_history_frame [OF l]
        by (auto simp: step_def resume_def after_history_def finish_def activation_inv_def
              awaits_room_def Let_def setup_failed_def split: option.splits)
    qed (use inv ts AwaitHistory in \<open>auto simp: step_def resume_def\<close>)
  next
    case AwaitPresenceEnter
    then show ?thesis
      using inv ts ok flag
      by (cases a)
         (auto simp: step_def resume_def finish_def activation_inv_def awaits_room_def
            split: option.splits)
  next
    case AwaitPresenceGet
    then show ?thesis
      using inv ts ok flag
      by (cases a)
         (auto simp: step_def resume_def finish_def activation_inv_def awaits_room_def)
  qed
qed

lemma activation_inv_Resume:
  assumes inv: "activation_inv y" and ok: "\<not> failure a"
  shows "activation_inv (step y (Resume k a))"
proof (cases "k < length (tasks y)")
  case True
  then have "length (tasks y) = 1" and k: "k = 0"
    using inv by (auto simp: activation_inv_def)
  then obtain t where "tasks y = [t]"
    by (cases "tasks y") auto
  then show ?thesis
    using activation_inv_Resume_single [OF inv _ ok] k by simp
next
  case False
  then show ?thesis using inv by (simp add: step_def)
qed

lemma activation_inv_step: "activation_inv y \<Longrightarrow> \<not> resets e \<Longrightarrow> activation_inv (step y e)"
  by (cases e) (auto intro: activation_inv_Activate activation_inv_EffectCleanup activation_inv_Resume)

lemma activation_inv_run:
  "activation_inv y \<Longrightarrow> list_all (\<lambda>e. \<not> resets e) es \<Longrightarrow> activation_inv (run y es)"
  unfolding run_def
  by (induction es arbitrary: y) (auto intro: activation_inv_step)

lemma mounted_inv_fresh: "mounted_inv fresh_surface"
  by (simp add: mounted_inv_def fresh_surface_def initial_chat_def)

lemma mounted_inv_Activate:
  "activation_inv y \<Longrightarrow> mounted_inv y \<Longrightarrow> mounted_inv (step y (Activate connected u))"
  by (cases "isInitializedRef (chat_s y)")
     (auto simp: Activate_noop step_def setupChat_def open_connection_def finish_def activation_inv_def
        mounted_inv_def past_room_def Let_def split: option.splits)

lemma mounted_inv_Resume_single:
  assumes inv: "activation_inv y" and m: "mounted_inv y" and ts: "tasks y = [t]"
    and ok: "\<not> failure a"
  shows "mounted_inv (step y (Resume 0 a))"
proof -
  have flag: "isInitializedRef (chat_s y)"
    using inv ts by (auto simp: activation_inv_def)
  show ?thesis
  proof (cases "at t")
    case AwaitConnection
    then show ?thesis
      using inv m ts ok flag
      by (cases a)
         (auto simp: step_def resume_def after_connect_def after_room_def finish_def
            activation_inv_def mounted_inv_def past_room_def awaits_room_def Let_def
            split: if_splits)
  next
    case AwaitRoomsGet
    then show ?thesis
      using inv m ts ok flag
      by (cases a)
         (auto simp: step_def resume_def finish_def activation_inv_def mounted_inv_def
            past_room_def awaits_room_def split: option.splits)
  next
    case AwaitAttach
    then show ?thesis
      using inv m ts ok flag
      by (cases a)
         (auto simp: step_def resume_def after_room_def finish_def activation_inv_def
            mounted_inv_def past_room_def awaits_room_def)
  next
    case AwaitHistory
    show ?thesis
    proof (cases a)
      case (HistoryAnswer h)
      obtain s1 fx where l: "load_history (chat_s y) h = (s1, fx)"
        by (cases "load_history (chat_s y) h") auto
      show ?thesis
        using inv m ts flag AwaitHistory HistoryAnswer l load_history_frame [OF l]
        by (auto simp: step_def resume_def after_history_def finish_def activation_inv_def
              mounted_inv_def past_room_def awaits_room_def Let_def setup_failed_def
              split: option.splits)
    qed (use m ts AwaitHistory in \<open>auto simp: step_def resume_def\<close>)
  next
    case AwaitPresenceEnter
    then show ?thesis
      using inv m ts ok flag
      by (cases a)
         (auto simp: step_def resume_def finish_def activation_inv_def mounted_inv_def
            past_room_def awaits_room_def split: option.splits)
  next
    case AwaitPresenceGet
    then show ?thesis
      using inv m ts ok flag
      by (cases a)
         (auto simp: step_def resume_def finish_def activation_inv_def mounted_inv_def
            past_room_def awaits_room_def)
  qed
qed

lemma mounted_inv_Resume:
  assumes inv: "activation_inv y" and m: "mounted_inv y" and ok: "\<not> failure a"
  shows "mounted_inv (step y (Resume k a))"
proof (cases "k < length (tasks y)")
  case True
  then have "length (tasks y) = 1" and k: "k = 0"
    using inv by (auto simp: activation_inv_def)
  then obtain t where "tasks y = [t]"
    by (cases "tasks y") auto
  then show ?thesis
    using mounted_inv_Resume_single [OF inv m _ ok] k by simp
next
  case False
  then show ?thesis using m by (simp add: step_def)
qed

lemma undisturbed_not_resets: "undisturbed e \<Longrightarrow> \<not> resets e"
  by (cases e) auto

lemma undisturbed_step:
  "activation_inv y \<and> mounted_inv y \<Longrightarrow> undisturbed e \<Longrightarrow>
   activation_inv (step y e) \<and> mounted_inv (step y e)"
  by (cases e) (auto intro: mounted_inv_Activate mounted_inv_Resume activation_inv_step)

lemma undisturbed_run:
  "activation_inv y \<and> mounted_inv y \<Longrightarrow> list_all undisturbed es \<Longrightarrow>
   activation_inv (run y es) \<and> mounted_inv (run y es)"
  unfolding run_def
proof (induction es arbitrary: y)
  case Nil
  then show ?case by simp
next
  case (Cons e es)
  then have "activation_inv (step y e) \<and> mounted_inv (step y e)"
    using undisturbed_step [of y e] by simp
  then show ?case using Cons by simp
qed

lemma settled_activation:
  assumes es: "list_all undisturbed es"
    and flag: "isInitializedRef (chat_s (run fresh_surface es))"
    and over: "tasks (run fresh_surface es) = []"
  shows "connection_attempts (trace (run fresh_surface es)) = 1 \<and>
   room_attaches (trace (run fresh_surface es)) = 1"
proof -
  have "activation_inv fresh_surface \<and> mounted_inv fresh_surface"
    by (simp add: activation_inv_fresh mounted_inv_fresh)
  then have "activation_inv (run fresh_surface es) \<and> mounted_inv (run fresh_surface es)"
    using es by (rule undisturbed_run)
  then show ?thesis
    using flag over by (auto simp: activation_inv_def mounted_inv_def)
qed

text \<open>
  What the guard does achieve. Whenever the initialization flag is set, running
  \<open>setupChat\<close> again changes nothing and makes no call. On a surface that starts fresh,
  as long as no step of the activation fails and the surface is not torn down, the flag
  is set while an invocation is suspended and once the room is published, and at most
  one connection attempt and at most one room attach are made. When, in addition, no
  effect cleanup has unmounted the suspended invocation, an activation that has run to
  its end has made exactly one of each.
\<close>

lemma activation_never_duplicates:
  "(isInitializedRef (chat_s y0) \<longrightarrow> step y0 (Activate connected u) = y0) \<and>
   (list_all (\<lambda>e. \<not> resets e) es \<longrightarrow>
      (let y = run fresh_surface es
       in connection_attempts (trace y) \<le> 1 \<and> room_attaches (trace y) \<le> 1 \<and>
          (tasks y \<noteq> [] \<or> room (chat_s y) \<noteq> None \<longrightarrow> isInitializedRef (chat_s y)) \<and>
          (isInitializedRef (chat_s y) \<longrightarrow> connection_attempts (trace y) = 1) \<and>
          (room (chat_s y) \<noteq> None \<longrightarrow> room_attaches (trace y) = 1))) \<and>
   (list_all undisturbed es \<longrightarrow>
      (let y = run fresh_surface es
       in isInitializedRef (chat_s y) \<and> tasks y = [] \<longrightarrow>
          connection_attempts (trace y) = 1 \<and> room_attaches (trace y) = 1))"
proof -
  have "list_all (\<lambda>e. \<not> resets e) es \<Longrightarrow> activation_inv (run fresh_surface es)"
    by (rule activation_inv_run [OF activation_inv_fresh])
  then show ?thesis
    using settled_activation [of es]
    by (auto simp: Activate_noop activation_inv_def Let_def)
qed

lemmas run_unfold = run_def sample_events_def step_def setupChat_def open_connection_def resume_def after_connect_def
  after_room_def after_history_def finish_def load_history_def seed_history_def
  fresh_surface_def initial_chat_def Let_def

lemma sample_activation_once:
  "connection_attempts (trace (run fresh_surface sample_events)) = 1 \<and>
   room_attaches (trace (run fresh_surface sample_events)) = 1 \<and>
   room (chat_s (run fresh_surface sample_events)) = Some campus_room \<and>
   tasks (run fresh_surface sample_events) = [] \<and>
   step (run fresh_surface sample_events) (Activate True (Some (User (Some alice)))) =
     run fresh_surface sample_events"
proof -
  have pre: "list_all (\<lambda>e. \<not> resets e) sample_events" "list_all undisturbed sample_events"
    by (simp_all add: sample_events_def)
  have r: "room (chat_s (run fresh_surface sample_events)) = Some campus_room"
    by (simp add: run_unfold)
  have f: "isInitializedRef (chat_s (run fresh_surface sample_events))"
    by (simp add: run_unfold)
  have t: "tasks (run fresh_surface sample_events) = []"
    by (simp add: run_unfold)
  show ?thesis
    using activation_never_duplicates [where es = sample_events
        and ?y0.0 = "run fresh_surface sample_events"
        and connected = True and u = "Some (User (Some alice))"] pre r f t
    by (simp add: Let_def)
qed

lemma stuck_step:
  "isInitializedRef (chat_s y) \<Longrightarrow> tasks y = [] \<Longrightarrow> \<not> is_Unmount e \<Longrightarrow> step y e = y"
proof (cases e)
  case (Activate connected u)
  assume "isInitializedRef (chat_s y)"
  then show ?thesis unfolding Activate by (rule Activate_noop)
next
  case EffectCleanup
  assume "tasks y = []"
  then show ?thesis by (simp add: EffectCleanup step_def unmount_tasks_def)
next
  case (Resume k a)
  assume "tasks y = []"
  then show ?thesis by (simp add: Resume step_def)
next
  case (Unmount u d)
  assume "\<not> is_Unmount e"
  then show ?thesis by (simp add: Unmount)
qed

lemma stuck_run:
  "isInitializedRef (chat_s y) \<Longrightarrow> tasks y = [] \<Longrightarrow> list_all (\<lambda>e. \<not> is_Unmount e) es \<Longrightarrow>
   run y es = y"
  unfolding run_def
  by (induction es) (simp_all add: stuck_step)

lemma rerender_run:
  "run fresh_surface (rerender_events u) =
     \<lparr>chat_s = initial_chat\<lparr>isInitializedRef := True,
         realtimeClientRef := Some (Realtime (email_user u))\<rparr>,
      tasks = [], trace = [NewRealtime (email_user u)]\<rparr>"
  by (simp add: rerender_events_def run_def step_def setupChat_def open_connection_def
      resume_def after_connect_def finish_def unmount_tasks_def fresh_surface_def
      initial_chat_def Let_def)

text \<open>
  C5 (the code departs from the claim). The session changes while the first activation
  waits for the connection: the effect cleanup sets \<open>isMounted\<close> of the waiting
  invocation to false and the effect runs \<open>setupChat\<close> again, which returns at the guard.
  When the connection is there, the waiting invocation returns at its \<open>isMounted\<close> test
  and leaves the flag set. One connection attempt has been made and no room attach, no
  invocation is suspended, and from then on every run of \<open>setupChat\<close>, every cleanup and
  every answer changes nothing, so no room is attached until the surface is torn down.
\<close>

theorem activation_stuck_after_rerender:
  "(let y = run fresh_surface (rerender_events u)
    in connection_attempts (trace y) = 1 \<and> room_attaches (trace y) = 0 \<and>
       isInitializedRef (chat_s y) \<and> tasks y = [] \<and>
       room (chat_s y) = None \<and> currentRoomRef (chat_s y) = None \<and>
       (list_all (\<lambda>e. \<not> is_Unmount e) es \<longrightarrow>
          run y es = y \<and> room_attaches (trace (run y es)) = 0))"
proof -
  let ?y = "run fresh_surface (rerender_events u)"
  have f: "isInitializedRef (chat_s ?y)" and t: "tasks ?y = []"
    by (simp_all add: rerender_run)
  have c: "connection_attempts (trace ?y) = 1" "room_attaches (trace ?y) = 0"
    "room (chat_s ?y) = None" "currentRoomRef (chat_s ?y) = None"
    by (simp_all add: rerender_run initial_chat_def)
  have "list_all (\<lambda>e. \<not> is_Unmount e) es \<longrightarrow> run ?y es = ?y"
    using stuck_run [OF f t] by simp
  then show ?thesis
    using f t c by (simp add: Let_def)
qed

theorem activation_stuck_after_rerender_witness:
  "room_attaches (trace (run fresh_surface
     (rerender_events (User (Some alice)) @
      [Activate True (Some (User (Some alice))), EffectCleanup,
       Activate True (Some (User (Some alice))), Resume 0 (RoomsGetReturns (Some campus_room)),
       Resume 0 AttachOk]))) = 0 \<and>
   trace (run fresh_surface (rerender_events (User (Some alice)))) =
     [NewRealtime (Some alice)]"
proof -
  let ?es = "[Activate True (Some (User (Some alice))), EffectCleanup,
       Activate True (Some (User (Some alice))), Resume 0 (RoomsGetReturns (Some campus_room)),
       Resume 0 AttachOk]"
  have es: "list_all (\<lambda>e. \<not> is_Unmount e) ?es" by simp
  have app: "run fresh_surface (rerender_events (User (Some alice)) @ ?es) =
      run (run fresh_surface (rerender_events (User (Some alice)))) ?es"
    by (simp add: run_def)
  have tr: "trace (run fresh_surface (rerender_events (User (Some alice)))) =
     [NewRealtime (Some alice)]"
    by (simp add: rerender_run)
  show ?thesis
    unfolding app
    using activation_stuck_after_rerender [where u = "User (Some alice)" and es = ?es] es tr
    by (simp add: Let_def)
qed

end
